theory Spec2Isabelle
  imports Complex_Main "HOL-Library.AList"
begin

section \<open>The 53-TET keyboard: the model of the code\<close>

text \<open>
  The repository holds two versions of the keyboard component:
  \<^verbatim>\<open>src/FiftyThreeTETKeyboard.tsx\<close> and a second, unnamed source file (a variant with two
  keyboards). Definitions translated from the first keep the names of the source; where
  the second file defines the same function differently, its translation carries the
  suffix \<open>_p0\<close>. Functions that are textually the same in both files
  (\<open>parseStepList\<close>, \<open>buildSmoothDecayCurve\<close>, \<open>visualReleaseMs\<close>) are translated once.

  JavaScript numbers are modelled as reals (\<open>Math.pow\<close> on a positive base as \<open>powr\<close>),
  and as \<open>int\<close> where the code only ever holds integers (steps, pointer ids, counts);
  the rounding of IEEE-754 doubles is outside the model.
\<close>

subsection \<open>Constants and math\<close>

definition D4_FREQ :: real where
  "D4_FREQ = 2936647679 / 10000000"

definition STEPS :: real where
  "STEPS = 53"

text \<open>\<^verbatim>\<open>const R = Math.pow(2, 1 / STEPS)\<close>\<close>

definition R :: real where
  "R = 2 powr (1 / STEPS)"

text \<open>\<^verbatim>\<open>const MIN_REL = 0.03\<close> and
  \<^verbatim>\<open>Math.max(90, Math.round((Math.max(MIN_REL, rel) + 0.01) * 1000))\<close>;
  \<open>Math.round x\<close> is \<open>\<lfloor>x + 1/2\<rfloor>\<close>.\<close>

definition MIN_REL :: real where
  "MIN_REL = 3 / 100"

definition visualReleaseMs :: "real \<Rightarrow> real" where
  "visualReleaseMs rel =
     max 90 (of_int \<lfloor>(max MIN_REL rel + 1 / 100) * 1000 + 1 / 2\<rfloor>)"

text \<open>\<^verbatim>\<open>D4_FREQ * Math.pow(2, semitonesFromD4 / 12)\<close>\<close>

definition baseFreqFromSemitones :: "int \<Rightarrow> real" where
  "baseFreqFromSemitones semitonesFromD4 = D4_FREQ * 2 powr (of_int semitonesFromD4 / 12)"

text \<open>First file: \<^verbatim>\<open>baseFreq * Math.pow(R, step)\<close>.\<close>

definition freqForStepFromBase :: "int \<Rightarrow> real \<Rightarrow> real" where
  "freqForStepFromBase step baseFreq = baseFreq * R powr (of_int step)"

text \<open>Second file: \<^verbatim>\<open>base * Math.pow(2, step / STEPS)\<close>.\<close>

definition freqForStepFromBase_p0 :: "int \<Rightarrow> real \<Rightarrow> real" where
  "freqForStepFromBase_p0 step base = base * 2 powr (of_int step / STEPS)"

subsection \<open>Parsing a custom step list\<close>

text \<open>
  \<^verbatim>\<open>parseStepList(s): { steps: number[]; error: string | null }\<close>, the same text in both
  files. The two error messages become the constructors of \<open>parse_error\<close>.
\<close>

datatype parse_error = NonIntegerToken string | OutOfRange int

record parse_result =
  steps :: "int list"
  error :: "parse_error option"

text \<open>
  \<^verbatim>\<open>s.trim()\<close> removes leading and trailing white space. The ASCII white space characters
  are listed; JavaScript also trims some characters outside ASCII, none of which is a digit.
\<close>

definition isWhiteSpace :: "char \<Rightarrow> bool" where
  "isWhiteSpace c = (c \<in> set [CHR 0x09, CHR 0x0A, CHR 0x0B, CHR 0x0C, CHR 0x0D, CHR '' ''])"

definition trim :: "string \<Rightarrow> string" where
  "trim s = rev (dropWhile isWhiteSpace (rev (dropWhile isWhiteSpace s)))"

definition isDigit :: "char \<Rightarrow> bool" where
  "isDigit c = (c \<in> set ''0123456789'')"

text \<open>
  \<^verbatim>\<open>s.split(/[^0-9]+/)\<close>: the pieces between the maximal runs of non-digits, with an empty
  piece where the string starts or ends with such a run. \<open>cur\<close> is the piece being read and
  \<open>inSep\<close> tells whether the previous character belonged to a separator.
\<close>

fun splitNonDigits :: "string \<Rightarrow> bool \<Rightarrow> string \<Rightarrow> string list" where
  "splitNonDigits cur inSep [] = [cur]"
| "splitNonDigits cur inSep (c # cs) =
     (if isDigit c then splitNonDigits (cur @ [c]) False cs
      else if inSep then splitNonDigits cur True cs
      else cur # splitNonDigits [] True cs)"

definition digitValue :: "char \<Rightarrow> int" where
  "digitValue c = int (of_char c) - int (of_char CHR ''0'')"

definition decimalValue :: "string \<Rightarrow> int" where
  "decimalValue t = foldl (\<lambda>n c. 10 * n + digitValue c) 0 t"

text \<open>
  \<^verbatim>\<open>Number(t)\<close> on a string of decimal digits: the value, or \<open>Infinity\<close> from
  \<open>2^1024 - 2^970\<close> on (where a double rounds to infinity). The only token for which
  \<^verbatim>\<open>Number.isInteger\<close> is false is therefore one that reads as \<open>Infinity\<close>. Above \<open>2^53\<close> a
  double holds the nearest representable integer; the model keeps the exact value, which
  is on the same side of 31.
\<close>

datatype jsnumber = Finite int | Infinity

definition Number :: "string \<Rightarrow> jsnumber" where
  "Number t =
     (if decimalValue t < 2 ^ 1024 - 2 ^ 970 then Finite (decimalValue t) else Infinity)"

text \<open>The \<^verbatim>\<open>for (const t of tokens)\<close> loop, with its two early returns.\<close>

fun parseTokens :: "string list \<Rightarrow> int list \<Rightarrow> parse_error + int list" where
  "parseTokens [] nums = Inr nums"
| "parseTokens (t # ts) nums =
     (case Number t of
        Infinity \<Rightarrow> Inl (NonIntegerToken t)
      | Finite n \<Rightarrow>
          if n < 0 \<or> n > 31 then Inl (OutOfRange n)
          else parseTokens ts (nums @ [n]))"

text \<open>
  \<^verbatim>\<open>Array.from(new Set(nums))\<close> keeps the first occurrence of each number, in order:
  \<open>rev (remdups (rev nums))\<close>. \<^verbatim>\<open>.sort((a, b) => a - b)\<close> sorts ascending.
\<close>

definition parseStepList :: "string \<Rightarrow> parse_result" where
  "parseStepList s =
     (if trim s = [] then \<lparr>steps = [], error = None\<rparr>
      else
        let tokens = filter (\<lambda>t. t \<noteq> []) (splitNonDigits [] False s) in
        case parseTokens tokens [] of
          Inl e \<Rightarrow> \<lparr>steps = [], error = Some e\<rparr>
        | Inr nums \<Rightarrow>
            let uniq = sort (rev (remdups (rev nums))) in
            \<lparr>steps = uniq, error = None\<rparr>)"

subsection \<open>The smooth release curve\<close>

text \<open>\<^verbatim>\<open>points | 0\<close>: the signed 32-bit integer of an integer.\<close>

definition toInt32 :: "int \<Rightarrow> int" where
  "toInt32 x = (x + 2 ^ 31) mod 2 ^ 32 - 2 ^ 31"

text \<open>
  \<^verbatim>\<open>buildSmoothDecayCurve(start, end = 1e-4, points = 256)\<close>, the same text in both files.
  \<^verbatim>\<open>start || floor\<close> takes \<open>floor\<close> when \<open>start\<close> is 0. The \<^verbatim>\<open>for\<close> loop fills index
  \<open>i = 0 .. n - 1\<close> with \<open>curvePoint\<close>, the body of the loop; the list is the array it
  leaves.
\<close>

definition curvePoint :: "real \<Rightarrow> real \<Rightarrow> int \<Rightarrow> nat \<Rightarrow> real" where
  "curvePoint s0 floorv n i =
     (let t = real i / real_of_int (n - 1);
          smooth = t * t * (3 - 2 * t);
          y = floorv + (s0 - floorv) * (1 - smooth)
      in y)"

definition buildSmoothDecayCurve :: "real \<Rightarrow> real \<Rightarrow> int \<Rightarrow> real list" where
  "buildSmoothDecayCurve start endv points =
     (let n = max 2 (toInt32 points);
          floorv = max endv (1 / 1000000);
          s0 = max (if start = 0 then floorv else start) floorv
      in map (curvePoint s0 floorv n) [0 ..< nat n])"

subsection \<open>The Web Audio voice\<close>

text \<open>
  The audio graph is a black box to the component. A voice owns one oscillator and one gain
  node; what the code does to them is recorded as the list of calls it makes, oldest first.
  What the code reads back from the audio context comes in with \<open>audio_env\<close>:
  \<^verbatim>\<open>ctx.currentTime\<close>, \<^verbatim>\<open>performance.now()\<close>, the two reads of
  \<^verbatim>\<open>gain.gain.value\<close> in \<^verbatim>\<open>Voice.stop\<close>, and whether \<^verbatim>\<open>setValueCurveAtTime\<close>
  and \<^verbatim>\<open>linearRampToValueAtTime\<close> throw inside the \<^verbatim>\<open>try\<close> blocks of the first file.
\<close>

datatype waveform = Sine | Square | Sawtooth | Triangle | Custom

text \<open>The only callback ever passed to \<^verbatim>\<open>Voice.stop\<close> is \<^verbatim>\<open>() => decGlow(step)\<close>.\<close>

datatype callback = DecGlow int

datatype audio_call =
    OscSetType waveform
  | OscFrequencyValue real
  | OscFrequencySetTargetAtTime real real real
  | OscConnect
  | OscStart
  | OscStop real
  | OscSetOnEnded "callback option"
  | GainValue real
  | GainCancelScheduledValues real
  | GainSetValueAtTime real real
  | GainLinearRampToValueAtTime real real
  | GainSetTargetAtTime real real real
  | GainSetValueCurveAtTime "real list" real real

record audio_env =
  currentTime :: real
  nowMs :: real
  gainValue :: real
  gainValue2 :: real
  curveThrows :: bool
  rampThrows :: bool

record audio_nodes =
  calls :: "audio_call list"

text \<open>First file: \<^verbatim>\<open>class Voice\<close> with the private flag \<^verbatim>\<open>_stopped\<close>.\<close>

record Voice = audio_nodes +
  stopped :: bool

definition newVoice :: "audio_env \<Rightarrow> waveform \<Rightarrow> real \<Rightarrow> real \<Rightarrow> real \<Rightarrow> Voice" where
  "newVoice ctx wtype frequency gainTarget attackv =
     (let now = currentTime ctx in
      \<lparr>calls = [OscSetType wtype, OscFrequencyValue frequency, GainValue 0, OscConnect,
                OscStart, GainCancelScheduledValues now, GainSetValueAtTime 0 now,
                GainLinearRampToValueAtTime gainTarget (now + max (1 / 1000) attackv)],
       stopped = False\<rparr>)"

definition setFrequency :: "audio_env \<Rightarrow> real \<Rightarrow> Voice \<Rightarrow> Voice" where
  "setFrequency ctx freq v =
     v\<lparr>calls := calls v @ [OscFrequencySetTargetAtTime freq (currentTime ctx) (1 / 100)]\<rparr>"

definition setGain :: "audio_env \<Rightarrow> real \<Rightarrow> Voice \<Rightarrow> Voice" where
  "setGain ctx target v =
     v\<lparr>calls := calls v @ [GainSetTargetAtTime target (currentTime ctx) (1 / 100)]\<rparr>"

definition setWaveform :: "waveform \<Rightarrow> Voice \<Rightarrow> Voice" where
  "setWaveform wtype v = v\<lparr>calls := calls v @ [OscSetType wtype]\<rparr>"

text \<open>
  \<^verbatim>\<open>stop(release, onEnded?)\<close> of the first file. The first line is the guard
  \<^verbatim>\<open>if (this._stopped) return; this._stopped = true;\<close>. The \<^verbatim>\<open>try\<close>/\<^verbatim>\<open>catch\<close> ladder
  chooses the curve, the linear ramp or the exponential approach.
\<close>

definition stop :: "audio_env \<Rightarrow> real \<Rightarrow> callback option \<Rightarrow> Voice \<Rightarrow> Voice" where
  "stop ctx releasev onEnded v =
     (if stopped v then v
      else
        let now = currentTime ctx;
            rel = max (3 / 100) releasev;
            current = gainValue ctx;
            rampEnd = now + rel;
            shape =
              (if \<not> curveThrows ctx then
                 [GainSetValueCurveAtTime
                    (buildSmoothDecayCurve (gainValue2 ctx) (1 / 10000) 256) now rel]
               else if \<not> rampThrows ctx then
                 [GainLinearRampToValueAtTime (1 / 10000) rampEnd]
               else [GainSetTargetAtTime (1 / 10000) now (max (1 / 100) (rel / 3))])
        in v\<lparr>calls := calls v
                  @ [GainCancelScheduledValues now,
                     GainSetValueAtTime (max current (1 / 10000)) now]
                  @ shape
                  @ [GainSetValueAtTime 0 (rampEnd + 8 / 1000)]
                  @ (case onEnded of None \<Rightarrow> [] | Some cb \<Rightarrow> [OscSetOnEnded (Some cb)])
                  @ [OscStop (rampEnd + 1 / 100)],
             stopped := True\<rparr>)"

text \<open>
  Second file: \<^verbatim>\<open>class Voice\<close> with the cached \<^verbatim>\<open>releaseCurve\<close> and no stopped flag.
  Its calls into the audio graph are taken not to throw (the file has no \<^verbatim>\<open>try\<close>).
\<close>

record Voice_p0 = audio_nodes +
  releaseCurve :: "real list"

definition newVoice_p0 :: "audio_env \<Rightarrow> waveform \<Rightarrow> real \<Rightarrow> real \<Rightarrow> real \<Rightarrow> Voice_p0" where
  "newVoice_p0 ctx w freq g attackv =
     (let now = currentTime ctx;
          atk = max (5 / 1000) attackv
      in \<lparr>calls = [OscSetType w, OscFrequencyValue freq, GainValue 0,
                   GainCancelScheduledValues now, GainSetValueAtTime 0 now,
                   GainLinearRampToValueAtTime g (now + atk), OscConnect, OscStart],
          releaseCurve = buildSmoothDecayCurve g (1 / 10000) 256\<rparr>)"

definition setFrequency_p0 :: "real \<Rightarrow> Voice_p0 \<Rightarrow> Voice_p0" where
  "setFrequency_p0 f v = v\<lparr>calls := calls v @ [OscFrequencyValue f]\<rparr>"

definition setGain_p0 :: "audio_env \<Rightarrow> real \<Rightarrow> Voice_p0 \<Rightarrow> Voice_p0" where
  "setGain_p0 ctx g v =
     (let now = currentTime ctx in
      v\<lparr>calls := calls v @ [GainCancelScheduledValues now,
                             GainSetValueAtTime (gainValue ctx) now,
                             GainLinearRampToValueAtTime g (now + 1 / 100)],
        releaseCurve := buildSmoothDecayCurve g (1 / 10000) 256\<rparr>)"

definition setWaveform_p0 :: "waveform \<Rightarrow> Voice_p0 \<Rightarrow> Voice_p0" where
  "setWaveform_p0 w v = v\<lparr>calls := calls v @ [OscSetType w]\<rparr>"

text \<open>
  \<^verbatim>\<open>stop(release, onEnded?)\<close> of the second file; \<^verbatim>\<open>this.osc.onended = () => onEnded?.()\<close>
  installs a handler in every case.
\<close>

definition stop_p0 :: "audio_env \<Rightarrow> real \<Rightarrow> callback option \<Rightarrow> Voice_p0 \<Rightarrow> Voice_p0" where
  "stop_p0 ctx releasev onEnded v =
     (let now = currentTime ctx;
          rel = max (2 / 100) releasev;
          curve = releaseCurve v
      in v\<lparr>calls := calls v
                @ [GainCancelScheduledValues now,
                   GainSetValueAtTime (gainValue ctx) now,
                   GainSetValueCurveAtTime curve now rel,
                   OscStop (now + rel + 5 / 1000),
                   OscSetOnEnded onEnded]\<rparr>)"

text \<open>The calls that end the oscillator for good.\<close>

fun isOscStop :: "audio_call \<Rightarrow> bool" where
  "isOscStop (OscStop t) = True"
| "isOscStop c = False"

fun isOscSetOnEnded :: "audio_call \<Rightarrow> bool" where
  "isOscSetOnEnded (OscSetOnEnded cb) = True"
| "isOscSetOnEnded c = False"

subsection \<open>The component state\<close>

text \<open>
  The React state (\<^verbatim>\<open>useState\<close>) and the mutable refs (\<^verbatim>\<open>useRef\<close>) of the component.
  A JavaScript \<^verbatim>\<open>Map\<close> keeps its keys in insertion order, one entry per key: it is an
  association list with \<open>map_of\<close> for \<^verbatim>\<open>get\<close>, \<open>AList.update\<close> for \<^verbatim>\<open>set\<close> and
  \<open>AList.delete\<close> for \<^verbatim>\<open>delete\<close>. \<open>voices\<close> is the store of the \<^verbatim>\<open>Voice\<close> objects
  constructed so far, by reference; the registries hold references, and \<open>nextVoice\<close> is
  the number of constructions. The audio context is taken to be available.

  The type of the voices and of \<open>activePointers\<close> (a \<^verbatim>\<open>Set\<close> in the first file, a
  \<^verbatim>\<open>Map\<close> in the second) are parameters.
\<close>

record fade =
  startedAt :: real
  durationMs :: real

record ('v, 'p) kb_state =
  waveform :: waveform
  gain :: real
  attack :: real
  release :: real
  sustain :: bool
  transpose12 :: int
  uiPulse :: nat
  activeHz :: "real option"
  activeStep :: "int option"
  voices :: "(nat \<times> 'v) list"
  nextVoice :: nat
  activePointers :: 'p
  activeVoices :: "(int \<times> nat \<times> int) list"
  latchedVoices :: "(int \<times> nat) list"
  activeKeys :: "(string \<times> nat \<times> int) list"
  glowCounts :: "(int \<times> int) list"
  fadeInfo :: "(int \<times> fade) list"

text \<open>The second file also has the pending \<^verbatim>\<open>setTimeout\<close> calls: delay and step.\<close>

record ('v, 'p) kb_state_p0 = "('v, 'p) kb_state" +
  timers :: "(real \<times> int) list"

type_synonym state = "(Voice, int set) kb_state"

type_synonym state_p0 = "(Voice_p0, (int \<times> int) list) kb_state_p0"

definition initialState :: state where
  "initialState =
     \<lparr>waveform = Sine, gain = 15 / 100, attack = 1 / 100, release = 45 / 100,
      sustain = False, transpose12 = 0, uiPulse = 0, activeHz = None, activeStep = None,
      voices = [], nextVoice = 0, activePointers = {}, activeVoices = [],
      latchedVoices = [], activeKeys = [], glowCounts = [], fadeInfo = []\<rparr>"

definition initialState_p0 :: state_p0 where
  "initialState_p0 =
     \<lparr>waveform = Sine, gain = 15 / 100, attack = 2 / 100, release = 12 / 100,
      sustain = False, transpose12 = 0, uiPulse = 0, activeHz = None, activeStep = None,
      voices = [], nextVoice = 0, activePointers = [], activeVoices = [],
      latchedVoices = [], activeKeys = [], glowCounts = [], fadeInfo = [], timers = []\<rparr>"

text \<open>\<^verbatim>\<open>const tick = () => setUiPulse((v) => (v + 1) % 1_000_000)\<close>\<close>

definition tick :: "('v, 'p, 'z) kb_state_scheme \<Rightarrow> ('v, 'p, 'z) kb_state_scheme" where
  "tick st = st\<lparr>uiPulse := (uiPulse st + 1) mod 1000000\<rparr>"

text \<open>\<^verbatim>\<open>const baseFreq = useMemo(() => baseFreqFromSemitones(transpose12), [transpose12])\<close>\<close>

definition baseFreq :: "('v, 'p, 'z) kb_state_scheme \<Rightarrow> real" where
  "baseFreq st = baseFreqFromSemitones (transpose12 st)"

text \<open>\<^verbatim>\<open>glowCounts.current.get(step) || 0\<close>\<close>

definition getCount :: "(int \<times> int) list \<Rightarrow> int \<Rightarrow> int" where
  "getCount m step = (case map_of m step of None \<Rightarrow> 0 | Some c \<Rightarrow> c)"

subsection \<open>Liveness of the steps, first file\<close>

text \<open>
  \<^verbatim>\<open>incGlow\<close>: \<^verbatim>\<open>m.set(step, (m.get(step) || 0) + 1); fadeInfo.current.delete(step); tick();\<close>

  \<^verbatim>\<open>maybeBeginFade\<close>: \<^verbatim>\<open>if (count <= 1) { fadeInfo.current.set(step, {...}); tick(); }\<close>

  \<^verbatim>\<open>decGlow\<close>: \<^verbatim>\<open>next = (m.get(step) || 0) - 1;\<close> then
  \<^verbatim>\<open>if (next <= 0) { m.delete(step); fadeInfo.current.delete(step); } else { m.set(step, next); }\<close>
  and \<^verbatim>\<open>tick()\<close>.
\<close>

definition incGlow :: "state \<Rightarrow> int \<Rightarrow> state" where
  "incGlow st step =
     tick (st\<lparr>glowCounts := AList.update step (getCount (glowCounts st) step + 1) (glowCounts st),
              fadeInfo := AList.delete step (fadeInfo st)\<rparr>)"

definition maybeBeginFade :: "audio_env \<Rightarrow> state \<Rightarrow> int \<Rightarrow> state" where
  "maybeBeginFade env st step =
     (let count = getCount (glowCounts st) step in
      if count \<le> 1 then
        tick (st\<lparr>fadeInfo :=
                   AList.update step
                     \<lparr>startedAt = nowMs env, durationMs = visualReleaseMs (release st)\<rparr>
                     (fadeInfo st)\<rparr>)
      else st)"

definition decGlow :: "state \<Rightarrow> int \<Rightarrow> state" where
  "decGlow st step =
     (let nextv = getCount (glowCounts st) step - 1 in
      tick (if nextv \<le> 0 then
              st\<lparr>glowCounts := AList.delete step (glowCounts st),
                 fadeInfo := AList.delete step (fadeInfo st)\<rparr>
            else st\<lparr>glowCounts := AList.update step nextv (glowCounts st)\<rparr>))"

subsection \<open>Start, retune and stop, first file\<close>

text \<open>
  \<^verbatim>\<open>new Voice(ctx, waveform, f, gain, attack)\<close> stores the new object under the next
  reference. \<open>startForPointer\<close> has no test on \<^verbatim>\<open>activeVoices\<close>; \<open>startForKey\<close> begins with
  \<^verbatim>\<open>if (activeKeys.current.has(key)) return;\<close>. \<open>retuneForPointer\<close> has
  \<^verbatim>\<open>if (prev !== step) { decGlow(prev); incGlow(step); }\<close>. The stop functions call
  \<^verbatim>\<open>maybeBeginFade(step)\<close> first, then \<^verbatim>\<open>voice.stop(release, () => decGlow(step))\<close>, then
  delete the entry.
\<close>

definition startForPointer :: "audio_env \<Rightarrow> state \<Rightarrow> int \<Rightarrow> int \<Rightarrow> state" where
  "startForPointer ctx st pointerId step =
     (let f = freqForStepFromBase step (baseFreq st);
          voice = nextVoice st;
          st1 = st\<lparr>voices := AList.update voice
                                (newVoice ctx (waveform st) f (gain st) (attack st)) (voices st),
                    nextVoice := voice + 1\<rparr>;
          st2 = st1\<lparr>activePointers := insert pointerId (activePointers st1)\<rparr>;
          st3 = st2\<lparr>activeVoices := AList.update pointerId (voice, step) (activeVoices st2)\<rparr>;
          st4 = incGlow st3 step
      in st4\<lparr>activeHz := Some f, activeStep := Some step\<rparr>)"

definition retuneForPointer :: "audio_env \<Rightarrow> state \<Rightarrow> int \<Rightarrow> int \<Rightarrow> state" where
  "retuneForPointer ctx st pointerId step =
     (case map_of (activeVoices st) pointerId of
        None \<Rightarrow> st
      | Some (voice, prev) \<Rightarrow>
          let st1 = (if prev \<noteq> step then incGlow (decGlow st prev) step else st);
              st2 = st1\<lparr>activeVoices := AList.update pointerId (voice, step) (activeVoices st1)\<rparr>;
              f = freqForStepFromBase step (baseFreq st2);
              st3 = st2\<lparr>voices := AList.map_entry voice (setFrequency ctx f) (voices st2)\<rparr>
          in st3\<lparr>activeHz := Some f, activeStep := Some step\<rparr>)"

definition stopForPointer :: "audio_env \<Rightarrow> state \<Rightarrow> int \<Rightarrow> state" where
  "stopForPointer ctx st pointerId =
     (case map_of (activeVoices st) pointerId of
        None \<Rightarrow> st
      | Some (voice, step) \<Rightarrow>
          let st1 = maybeBeginFade ctx st step;
              st2 = st1\<lparr>voices := AList.map_entry voice
                                    (stop ctx (release st1) (Some (DecGlow step))) (voices st1)\<rparr>;
              st3 = st2\<lparr>activeVoices := AList.delete pointerId (activeVoices st2)\<rparr>
          in st3\<lparr>activePointers := activePointers st3 - {pointerId}\<rparr>)"

definition startForKey :: "audio_env \<Rightarrow> state \<Rightarrow> string \<Rightarrow> int \<Rightarrow> state" where
  "startForKey ctx st key step =
     (if map_of (activeKeys st) key \<noteq> None then st
      else
        let f = freqForStepFromBase step (baseFreq st);
            voice = nextVoice st;
            st1 = st\<lparr>voices := AList.update voice
                                  (newVoice ctx (waveform st) f (gain st) (attack st)) (voices st),
                      nextVoice := voice + 1\<rparr>;
            st2 = st1\<lparr>activeKeys := AList.update key (voice, step) (activeKeys st1)\<rparr>;
            st3 = incGlow st2 step
        in st3\<lparr>activeHz := Some f, activeStep := Some step\<rparr>)"

definition stopForKey :: "audio_env \<Rightarrow> state \<Rightarrow> string \<Rightarrow> state" where
  "stopForKey ctx st key =
     (case map_of (activeKeys st) key of
        None \<Rightarrow> st
      | Some (voice, step) \<Rightarrow>
          let st1 = maybeBeginFade ctx st step;
              st2 = st1\<lparr>voices := AList.map_entry voice
                                    (stop ctx (release st1) (Some (DecGlow step))) (voices st1)\<rparr>
          in st2\<lparr>activeKeys := AList.delete key (activeKeys st2)\<rparr>)"

definition toggleLatched :: "audio_env \<Rightarrow> state \<Rightarrow> int \<Rightarrow> state" where
  "toggleLatched ctx st step =
     (case map_of (latchedVoices st) step of
        Some existing \<Rightarrow>
          let st1 = maybeBeginFade ctx st step;
              st2 = st1\<lparr>voices := AList.map_entry existing
                                    (stop ctx (release st1) (Some (DecGlow step))) (voices st1)\<rparr>;
              st3 = st2\<lparr>latchedVoices := AList.delete step (latchedVoices st2)\<rparr>
          in if activeVoices st3 = [] \<and> latchedVoices st3 = []
             then st3\<lparr>activeHz := None, activeStep := None\<rparr> else st3
      | None \<Rightarrow>
          let f = freqForStepFromBase step (baseFreq st);
              voice = nextVoice st;
              st1 = st\<lparr>voices := AList.update voice
                                    (newVoice ctx (waveform st) f (gain st) (attack st)) (voices st),
                        nextVoice := voice + 1\<rparr>;
              st2 = st1\<lparr>latchedVoices := AList.update step voice (latchedVoices st1)\<rparr>;
              st3 = incGlow st2 step
          in st3\<lparr>activeHz := Some f, activeStep := Some step\<rparr>)"

text \<open>
  The effect \<^verbatim>\<open>useEffect(() => { activeVoices.current.forEach(...) }, [transpose12, baseFreq])\<close>
  ("Retune currently held (pointer-down) voices if base transposes"), and the state setter
  that makes it run: React runs the effect after a render in which a dependency changed.
\<close>

definition baseFreqEffect :: "audio_env \<Rightarrow> state \<Rightarrow> state" where
  "baseFreqEffect ctx st =
     fold (\<lambda>(pointerId, voice, step) s.
             let f = freqForStepFromBase step (baseFreq st) in
             s\<lparr>voices := AList.map_entry voice (setFrequency ctx f) (voices s),
               activeHz := Some f, activeStep := Some step\<rparr>)
          (activeVoices st) st"

definition setTranspose12 :: "audio_env \<Rightarrow> state \<Rightarrow> int \<Rightarrow> state" where
  "setTranspose12 ctx st v =
     (if v = transpose12 st then st else baseFreqEffect ctx (st\<lparr>transpose12 := v\<rparr>))"

text \<open>The pointer handlers of a key of the keyboard.\<close>

definition onPointerDown :: "audio_env \<Rightarrow> state \<Rightarrow> int \<Rightarrow> int \<Rightarrow> state" where
  "onPointerDown ctx st pointerId step =
     (if sustain st then toggleLatched ctx st step else startForPointer ctx st pointerId step)"

definition onPointerEnter :: "audio_env \<Rightarrow> state \<Rightarrow> int \<Rightarrow> int \<Rightarrow> state" where
  "onPointerEnter ctx st pointerId step =
     (if \<not> sustain st \<and> pointerId \<in> activePointers st
      then retuneForPointer ctx st pointerId step else st)"

definition onPointerUp :: "audio_env \<Rightarrow> state \<Rightarrow> int \<Rightarrow> state" where
  "onPointerUp ctx st pointerId = (if \<not> sustain st then stopForPointer ctx st pointerId else st)"

subsection \<open>Liveness of the steps, second file\<close>

text \<open>
  \<^verbatim>\<open>incGlow\<close> only sets the count and ticks; \<^verbatim>\<open>decGlow\<close> deletes or sets the count and
  ticks; \<^verbatim>\<open>maybeBeginFade\<close> always records the fade and schedules its removal with
  \<^verbatim>\<open>setTimeout(..., ms + 10)\<close>.
\<close>

definition incGlow_p0 :: "state_p0 \<Rightarrow> int \<Rightarrow> state_p0" where
  "incGlow_p0 st step =
     tick (st\<lparr>glowCounts :=
                AList.update step (getCount (glowCounts st) step + 1) (glowCounts st)\<rparr>)"

definition decGlow_p0 :: "state_p0 \<Rightarrow> int \<Rightarrow> state_p0" where
  "decGlow_p0 st step =
     (let v = getCount (glowCounts st) step - 1 in
      tick (if v \<le> 0 then st\<lparr>glowCounts := AList.delete step (glowCounts st)\<rparr>
            else st\<lparr>glowCounts := AList.update step v (glowCounts st)\<rparr>))"

definition maybeBeginFade_p0 :: "audio_env \<Rightarrow> state_p0 \<Rightarrow> int \<Rightarrow> state_p0" where
  "maybeBeginFade_p0 env st step =
     (let ms = visualReleaseMs (release st);
          st1 = st\<lparr>fadeInfo :=
                     AList.update step \<lparr>startedAt = nowMs env, durationMs = ms\<rparr> (fadeInfo st)\<rparr>
      in st1\<lparr>timers := timers st1 @ [(ms + 10, step)]\<rparr>)"

text \<open>The callback of the timer: \<^verbatim>\<open>() => { fadeInfo.current.delete(step); tick(); }\<close>.\<close>

definition fadeTimeout_p0 :: "state_p0 \<Rightarrow> int \<Rightarrow> state_p0" where
  "fadeTimeout_p0 st step = tick (st\<lparr>fadeInfo := AList.delete step (fadeInfo st)\<rparr>)"

subsection \<open>Start, retune and stop, second file\<close>

text \<open>
  \<^verbatim>\<open>startVoice(step)\<close> constructs the voice, calls \<^verbatim>\<open>incGlow(step)\<close>, sets the readout and
  returns the voice; \<open>startForKey\<close> and \<open>startForPointer\<close> store what it returns, with no
  test on the registry. \<open>retuneForPointer\<close> calls \<^verbatim>\<open>voice.setFrequency(f); incGlow(step);\<close>
  and stores \<^verbatim>\<open>{ voice, step }\<close> again.
\<close>

definition startVoice_p0 :: "audio_env \<Rightarrow> state_p0 \<Rightarrow> int \<Rightarrow> nat \<times> state_p0" where
  "startVoice_p0 ctx st step =
     (let f = freqForStepFromBase_p0 step (baseFreq st);
          v = nextVoice st;
          st1 = st\<lparr>voices := AList.update v
                                (newVoice_p0 ctx (waveform st) f (gain st) (attack st)) (voices st),
                    nextVoice := v + 1\<rparr>;
          st2 = incGlow_p0 st1 step
      in (v, st2\<lparr>activeHz := Some f, activeStep := Some step\<rparr>))"

definition startForKey_p0 :: "audio_env \<Rightarrow> state_p0 \<Rightarrow> string \<Rightarrow> int \<Rightarrow> state_p0" where
  "startForKey_p0 ctx st key step =
     (let (v, st1) = startVoice_p0 ctx st step
      in st1\<lparr>activeKeys := AList.update key (v, step) (activeKeys st1)\<rparr>)"

definition stopForKey_p0 :: "audio_env \<Rightarrow> state_p0 \<Rightarrow> string \<Rightarrow> state_p0" where
  "stopForKey_p0 ctx st key =
     (case map_of (activeKeys st) key of
        None \<Rightarrow> st
      | Some (voice, step) \<Rightarrow>
          let st1 = maybeBeginFade_p0 ctx st step;
              st2 = st1\<lparr>voices := AList.map_entry voice
                                    (stop_p0 ctx (release st1) (Some (DecGlow step))) (voices st1)\<rparr>
          in st2\<lparr>activeKeys := AList.delete key (activeKeys st2)\<rparr>)"

definition startForPointer_p0 :: "audio_env \<Rightarrow> state_p0 \<Rightarrow> int \<Rightarrow> int \<Rightarrow> state_p0" where
  "startForPointer_p0 ctx st pointerId step =
     (let (v, st1) = startVoice_p0 ctx st step;
          st2 = st1\<lparr>activePointers := AList.update pointerId step (activePointers st1)\<rparr>
      in st2\<lparr>activeVoices := AList.update pointerId (v, step) (activeVoices st2)\<rparr>)"

definition retuneForPointer_p0 :: "audio_env \<Rightarrow> state_p0 \<Rightarrow> int \<Rightarrow> int \<Rightarrow> state_p0" where
  "retuneForPointer_p0 ctx st pointerId step =
     (case map_of (activeVoices st) pointerId of
        None \<Rightarrow> st
      | Some (voice, prev) \<Rightarrow>
          let f = freqForStepFromBase_p0 step (baseFreq st);
              st1 = st\<lparr>voices := AList.map_entry voice (setFrequency_p0 f) (voices st)\<rparr>;
              st2 = incGlow_p0 st1 step;
              st3 = st2\<lparr>activeHz := Some f, activeStep := Some step\<rparr>
          in st3\<lparr>activeVoices := AList.update pointerId (voice, step) (activeVoices st3)\<rparr>)"

definition stopForPointer_p0 :: "audio_env \<Rightarrow> state_p0 \<Rightarrow> int \<Rightarrow> state_p0" where
  "stopForPointer_p0 ctx st pointerId =
     (case map_of (activeVoices st) pointerId of
        None \<Rightarrow> st
      | Some (voice, step) \<Rightarrow>
          let st1 = maybeBeginFade_p0 ctx st step;
              st2 = st1\<lparr>voices := AList.map_entry voice
                                    (stop_p0 ctx (release st1) (Some (DecGlow step))) (voices st1)\<rparr>;
              st3 = st2\<lparr>activeVoices := AList.delete pointerId (activeVoices st2)\<rparr>
          in st3\<lparr>activePointers := AList.delete pointerId (activePointers st3)\<rparr>)"

definition toggleLatched_p0 :: "audio_env \<Rightarrow> state_p0 \<Rightarrow> int \<Rightarrow> state_p0" where
  "toggleLatched_p0 ctx st step =
     tick (case map_of (latchedVoices st) step of
        Some v \<Rightarrow>
          let st1 = maybeBeginFade_p0 ctx st step;
              st2 = st1\<lparr>voices := AList.map_entry v
                                    (stop_p0 ctx (release st1) (Some (DecGlow step))) (voices st1)\<rparr>
          in st2\<lparr>latchedVoices := AList.delete step (latchedVoices st2)\<rparr>
      | None \<Rightarrow>
          let f = freqForStepFromBase_p0 step (baseFreq st);
              newV = nextVoice st;
              st1 = st\<lparr>voices := AList.update newV
                                    (newVoice_p0 ctx (waveform st) f (gain st) (attack st)) (voices st),
                        nextVoice := newV + 1\<rparr>;
              st2 = st1\<lparr>latchedVoices := AList.update step newV (latchedVoices st1)\<rparr>;
              st3 = incGlow_p0 st2 step
          in st3\<lparr>activeHz := Some f, activeStep := Some step\<rparr>)"

definition baseFreqEffect_p0 :: "state_p0 \<Rightarrow> state_p0" where
  "baseFreqEffect_p0 st =
     fold (\<lambda>(pointerId, voice, step) s.
             let f = freqForStepFromBase_p0 step (baseFreq st) in
             s\<lparr>voices := AList.map_entry voice (setFrequency_p0 f) (voices s),
               activeHz := Some f, activeStep := Some step\<rparr>)
          (activeVoices st) st"

definition setTranspose12_p0 :: "state_p0 \<Rightarrow> int \<Rightarrow> state_p0" where
  "setTranspose12_p0 st v =
     (if v = transpose12 st then st else baseFreqEffect_p0 (st\<lparr>transpose12 := v\<rparr>))"

definition onPointerDown_p0 :: "audio_env \<Rightarrow> state_p0 \<Rightarrow> int \<Rightarrow> int \<Rightarrow> state_p0" where
  "onPointerDown_p0 ctx st pointerId step =
     (if sustain st then toggleLatched_p0 ctx st step else startForPointer_p0 ctx st pointerId step)"

text \<open>\<^verbatim>\<open>const onPointerUp = (e) => { if (!sustain) stopForPointer(e.pointerId); }\<close>\<close>

definition onPointerUp_p0 :: "audio_env \<Rightarrow> state_p0 \<Rightarrow> int \<Rightarrow> state_p0" where
  "onPointerUp_p0 ctx st pointerId =
     (if \<not> sustain st then stopForPointer_p0 ctx st pointerId else st)"

subsection \<open>All off and the effects on gain and waveform, second file\<close>

text \<open>
  The three \<^verbatim>\<open>forEach\<close> loops of \<^verbatim>\<open>allOff\<close> have the same body,
  \<^verbatim>\<open>maybeBeginFade(step); voice.stop(release, () => decGlow(step))\<close>, run over the entries
  of one registry in the order of the map; \<open>stopEach_p0\<close> is that loop over a list of
  (voice, step) entries. \<open>gains voice\<close> is the value \<^verbatim>\<open>gain.gain.value\<close> reads on that voice
  at the time of the call.
\<close>

definition stopEach_p0 ::
    "audio_env \<Rightarrow> (nat \<Rightarrow> real) \<Rightarrow> (nat \<times> int) list \<Rightarrow> state_p0 \<Rightarrow> state_p0" where
  "stopEach_p0 ctx gains entries st =
     fold (\<lambda>(voice, step) s.
             let s1 = maybeBeginFade_p0 ctx s step in
             s1\<lparr>voices := AList.map_entry voice
                             (stop_p0 (ctx\<lparr>gainValue := gains voice\<rparr>) (release s1)
                                (Some (DecGlow step)))
                             (voices s1)\<rparr>)
          entries st"

text \<open>
  \<^verbatim>\<open>allOff\<close>: stop every voice of \<open>activeVoices\<close> and clear it and \<open>activePointers\<close>; the
  same for \<open>activeKeys\<close>; the same for \<open>latchedVoices\<close>; then
  \<^verbatim>\<open>setActiveHz(null); setActiveStep(null); tick()\<close>.
\<close>

definition allOff_p0 :: "audio_env \<Rightarrow> (nat \<Rightarrow> real) \<Rightarrow> state_p0 \<Rightarrow> state_p0" where
  "allOff_p0 ctx gains st =
     (let st1 = stopEach_p0 ctx gains (map snd (activeVoices st)) st;
          st2 = st1\<lparr>activeVoices := [], activePointers := []\<rparr>;
          st3 = stopEach_p0 ctx gains (map snd (activeKeys st2)) st2;
          st4 = st3\<lparr>activeKeys := []\<rparr>;
          st5 = stopEach_p0 ctx gains (map (\<lambda>(step, voice). (voice, step)) (latchedVoices st4)) st4;
          st6 = st5\<lparr>latchedVoices := []\<rparr>
      in tick (st6\<lparr>activeHz := None, activeStep := None\<rparr>))"

text \<open>The voice references held by each registry, in the order of the map.\<close>

definition pointerRefs :: "('v, 'p, 'z) kb_state_scheme \<Rightarrow> nat list" where
  "pointerRefs st = map (\<lambda>(pointerId, voice, step). voice) (activeVoices st)"

definition latchRefs :: "('v, 'p, 'z) kb_state_scheme \<Rightarrow> nat list" where
  "latchRefs st = map snd (latchedVoices st)"

definition keyRefs :: "('v, 'p, 'z) kb_state_scheme \<Rightarrow> nat list" where
  "keyRefs st = map (\<lambda>(key, voice, step). voice) (activeKeys st)"

text \<open>
  \<^verbatim>\<open>useEffect(() => { activeVoices.current.forEach(({ voice }) => voice.setGain(gain));
  latchedVoices.current.forEach(v => v.setGain(gain)); }, [gain])\<close>, and the same effect on
  \<open>[waveform]\<close> with \<open>setWaveform\<close>. The voices of \<open>activeKeys\<close> are not visited.
\<close>

definition gainEffect_p0 :: "audio_env \<Rightarrow> (nat \<Rightarrow> real) \<Rightarrow> state_p0 \<Rightarrow> state_p0" where
  "gainEffect_p0 ctx gains st =
     fold (\<lambda>voice s.
             s\<lparr>voices := AList.map_entry voice
                            (setGain_p0 (ctx\<lparr>gainValue := gains voice\<rparr>) (gain st)) (voices s)\<rparr>)
          (pointerRefs st @ latchRefs st) st"

definition waveformEffect_p0 :: "state_p0 \<Rightarrow> state_p0" where
  "waveformEffect_p0 st =
     fold (\<lambda>voice s.
             s\<lparr>voices := AList.map_entry voice (setWaveform_p0 (waveform st)) (voices s)\<rparr>)
          (pointerRefs st @ latchRefs st) st"

subsection \<open>Runs of the second file\<close>

text \<open>
  What can happen to the component of the second file, one constructor per helper the
  handlers call and per state setter: the key and pointer helpers, the latch, \<^verbatim>\<open>allOff\<close>
  (the button, and the cleanup on unmount), the setters of \<open>transpose12\<close>, \<open>gain\<close>,
  \<open>waveform\<close>, \<open>attack\<close>, \<open>release\<close> and \<open>sustain\<close> (an effect runs when its dependency
  changed), the \<^verbatim>\<open>onended\<close> callback \<^verbatim>\<open>() => decGlow(step)\<close> of a stopped oscillator, and
  the timer of \<open>maybeBeginFade\<close>. An event comes with the audio context as it is then and
  with the gain values the voices read. The handlers of the component call the helpers
  under conditions (\<^verbatim>\<open>if (sustain) \<dots>\<close>, \<^verbatim>\<open>if (e.repeat) return\<close>); a run of the component
  is a sequence of these events, and not every sequence of events is a run of the
  component.
\<close>

datatype event_p0 =
    StartForKey string int
  | StopForKey string
  | StartForPointer int int
  | RetuneForPointer int int
  | StopForPointer int
  | ToggleLatched int
  | AllOff
  | SetTranspose12 int
  | SetGain real
  | SetWaveform waveform
  | SetAttack real
  | SetRelease real
  | SetSustain bool
  | Ended int
  | FadeTimeout int


fun handle_p0 :: "state_p0 \<Rightarrow> audio_env \<times> (nat \<Rightarrow> real) \<times> event_p0 \<Rightarrow> state_p0" where
  "handle_p0 st (ctx, gains, StartForKey key step) = startForKey_p0 ctx st key step"
| "handle_p0 st (ctx, gains, StopForKey key) = stopForKey_p0 ctx st key"
| "handle_p0 st (ctx, gains, StartForPointer pointerId step) = startForPointer_p0 ctx st pointerId step"
| "handle_p0 st (ctx, gains, RetuneForPointer pointerId step) = retuneForPointer_p0 ctx st pointerId step"
| "handle_p0 st (ctx, gains, StopForPointer pointerId) = stopForPointer_p0 ctx st pointerId"
| "handle_p0 st (ctx, gains, ToggleLatched step) = toggleLatched_p0 ctx st step"
| "handle_p0 st (ctx, gains, AllOff) = allOff_p0 ctx gains st"
| "handle_p0 st (ctx, gains, SetTranspose12 v) = setTranspose12_p0 st v"
| "handle_p0 st (ctx, gains, SetGain g) =
     (if g = gain st then st else gainEffect_p0 ctx gains (st\<lparr>gain := g\<rparr>))"
| "handle_p0 st (ctx, gains, SetWaveform w) =
     (if w = waveform st then st else waveformEffect_p0 (st\<lparr>waveform := w\<rparr>))"
| "handle_p0 st (ctx, gains, SetAttack a) = st\<lparr>attack := a\<rparr>"
| "handle_p0 st (ctx, gains, SetRelease r) = st\<lparr>release := r\<rparr>"
| "handle_p0 st (ctx, gains, SetSustain b) = st\<lparr>sustain := b\<rparr>"
| "handle_p0 st (ctx, gains, Ended step) = decGlow_p0 st step"
| "handle_p0 st (ctx, gains, FadeTimeout step) = fadeTimeout_p0 st step"

text \<open>
  Every voice reference held by a registry; the number of \<^verbatim>\<open>osc.stop\<close> calls a voice has
  received and the number of times its \<^verbatim>\<open>onended\<close> handler was installed.
\<close>

definition regRefs :: "('v, 'p, 'z) kb_state_scheme \<Rightarrow> nat list" where
  "regRefs st = pointerRefs st @ latchRefs st @ keyRefs st"

definition stopCount :: "'a audio_nodes_scheme \<Rightarrow> nat" where
  "stopCount v = length (filter isOscStop (calls v))"

definition endedCount :: "'a audio_nodes_scheme \<Rightarrow> nat" where
  "endedCount v = length (filter isOscSetOnEnded (calls v))"

text \<open>
  The ownership discipline of the registries: every map has one entry per key (as a
  JavaScript \<open>Map\<close> has), no voice is held by two entries, every voice was allocated, no
  voice received more than one \<^verbatim>\<open>osc.stop\<close> (installing \<^verbatim>\<open>onended\<close> as often), and a voice that
  a registry still holds received none.
\<close>

definition ownedOnce :: "state_p0 \<Rightarrow> bool" where
  "ownedOnce st =
     (distinct (map fst (voices st))
      \<and> distinct (map fst (activeVoices st))
      \<and> distinct (map fst (latchedVoices st))
      \<and> distinct (map fst (activeKeys st))
      \<and> distinct (regRefs st)
      \<and> (\<forall>r\<in>set (regRefs st). r < nextVoice st)
      \<and> (\<forall>(r, v)\<in>set (voices st).
            r < nextVoice st \<and> stopCount v \<le> 1 \<and> endedCount v = stopCount v
            \<and> (r \<in> set (regRefs st) \<longrightarrow> stopCount v = 0)))"

text \<open>
  Two states with the same registries and allocation, whose voices have received the same
  number of stops: what an operation that stops nothing and registers nothing preserves.
\<close>

definition sameOwnership :: "state_p0 \<Rightarrow> state_p0 \<Rightarrow> bool" where
  "sameOwnership st st' =
     (nextVoice st' = nextVoice st
      \<and> map fst (voices st') = map fst (voices st)
      \<and> (\<forall>r. map_option stopCount (map_of (voices st') r)
                 = map_option stopCount (map_of (voices st) r)
               \<and> map_option endedCount (map_of (voices st') r)
                 = map_option endedCount (map_of (voices st) r))
      \<and> pointerRefs st' = pointerRefs st
      \<and> latchRefs st' = latchRefs st
      \<and> keyRefs st' = keyRefs st
      \<and> map fst (activeVoices st') = map fst (activeVoices st)
      \<and> map fst (latchedVoices st') = map fst (latchedVoices st)
      \<and> map fst (activeKeys st') = map fst (activeKeys st))"


text \<open>The part of \<open>ownedOnce\<close> about the stored voices, read through \<open>map_of\<close>.\<close>

definition voicesOk :: "state_p0 \<Rightarrow> bool" where
  "voicesOk st = (\<forall>r v. map_of (voices st) r = Some v \<longrightarrow>
            r < nextVoice st \<and> stopCount v \<le> 1 \<and> endedCount v = stopCount v
            \<and> (r \<in> set (regRefs st) \<longrightarrow> stopCount v = 0))"


subsection \<open>Sequences of liveness operations and their invariant\<close>

text \<open>
  The three operations on the liveness maps, as data, so that a property can be stated for
  every sequence of them. \<open>OpFade\<close> carries what \<^verbatim>\<open>nowMs()\<close> reads.
\<close>

datatype glow_op = OpInc int | OpFade audio_env int | OpDec int

fun applyGlowOp :: "state \<Rightarrow> glow_op \<Rightarrow> state" where
  "applyGlowOp st (OpInc step) = incGlow st step"
| "applyGlowOp st (OpFade env step) = maybeBeginFade env st step"
| "applyGlowOp st (OpDec step) = decGlow st step"

fun applyGlowOp_p0 :: "state_p0 \<Rightarrow> glow_op \<Rightarrow> state_p0" where
  "applyGlowOp_p0 st (OpInc step) = incGlow_p0 st step"
| "applyGlowOp_p0 st (OpFade env step) = maybeBeginFade_p0 env st step"
| "applyGlowOp_p0 st (OpDec step) = decGlow_p0 st step"

text \<open>
  Every stored count is at least 1 (a step without an entry counts 0), and a step with a
  fade record has a count of at most 1.
\<close>

definition countsPositive :: "('v, 'p, 'z) kb_state_scheme \<Rightarrow> bool" where
  "countsPositive st = list_all (\<lambda>(k, c). 1 \<le> c) (glowCounts st)"

definition fadesOnlyAtLastSource :: "('v, 'p, 'z) kb_state_scheme \<Rightarrow> bool" where
  "fadesOnlyAtLastSource st =
     list_all (\<lambda>(k, f). getCount (glowCounts st) k \<le> 1) (fadeInfo st)"

definition glowInv :: "('v, 'p, 'z) kb_state_scheme \<Rightarrow> bool" where
  "glowInv st = (countsPositive st \<and> fadesOnlyAtLastSource st)"

text \<open>The steps at which the pointers hold the voice \<open>r\<close>, in the order of the map.\<close>

definition heldStepsOf :: "nat \<Rightarrow> (int \<times> nat \<times> int) list \<Rightarrow> int list" where
  "heldStepsOf r al =
     map (\<lambda>(pointerId, voice, step). step) (filter (\<lambda>(pointerId, voice, step). voice = r) al)"

subsection \<open>Concrete runs\<close>

text \<open>
  An audio context at time 0 whose gain reads 0.15 and whose calls do not throw, and the
  states reached from the initial state by a few events.
\<close>

definition env0 :: audio_env where
  "env0 = \<lparr>currentTime = 0, nowMs = 0, gainValue = 15 / 100, gainValue2 = 15 / 100,
           curveThrows = False, rampThrows = False\<rparr>"

definition heldOnce :: state where
  "heldOnce = startForPointer env0 initialState 1 10"

definition heldTwice :: state where
  "heldTwice = startForPointer env0 heldOnce 1 10"

definition heldOnce_p0 :: state_p0 where
  "heldOnce_p0 = startForPointer_p0 env0 initialState_p0 1 10"

definition keyTwice_p0 :: state_p0 where
  "keyTwice_p0 =
     startForKey_p0 env0 (startForKey_p0 env0 initialState_p0 ''a'' 10) ''a'' 10"

definition freshVoice_p0 :: Voice_p0 where
  "freshVoice_p0 = newVoice_p0 env0 Sine 440 (15 / 100) (2 / 100)"

definition stoppedOnce_p0 :: Voice_p0 where
  "stoppedOnce_p0 = stop_p0 env0 (12 / 100) (Some (DecGlow 10)) freshVoice_p0"

definition stoppedTwice_p0 :: Voice_p0 where
  "stoppedTwice_p0 = stop_p0 env0 (12 / 100) (Some (DecGlow 10)) stoppedOnce_p0"

definition dragged_p0 :: state_p0 where
  "dragged_p0 = retuneForPointer_p0 env0 heldOnce_p0 1 15"

definition released :: state where
  "released = stopForPointer env0 (startForPointer env0 initialState 1 7) 1"

definition latchedAt20 :: state where
  "latchedAt20 = toggleLatched env0 initialState 20"

definition sustainOn :: state where
  "sustainOn = initialState\<lparr>sustain := True\<rparr>"

definition sustainOn_p0 :: state_p0 where
  "sustainOn_p0 = initialState_p0\<lparr>sustain := True\<rparr>"

text \<open>
  A run of the second file with a duplicate pointer-down, two pointer-ups, a latch and two
  \<^verbatim>\<open>allOff\<close>; every voice reads the gain 0.15.
\<close>

definition gains0 :: "nat \<Rightarrow> real" where
  "gains0 voice = 15 / 100"

definition busyRun_p0 :: "(audio_env \<times> (nat \<Rightarrow> real) \<times> event_p0) list" where
  "busyRun_p0 =
     [(env0, gains0, StartForPointer 1 10),
      (env0, gains0, StartForPointer 1 10),
      (env0, gains0, StopForPointer 1),
      (env0, gains0, StopForPointer 1),
      (env0, gains0, ToggleLatched 20),
      (env0, gains0, AllOff),
      (env0, gains0, AllOff)]"

definition afterBusyRun_p0 :: state_p0 where
  "afterBusyRun_p0 = foldl handle_p0 initialState_p0 busyRun_p0"

section \<open>Pitch resolution\<close>

lemma R_powr: "R powr x = 2 powr (x / 53)"
  by (simp add: R_def STEPS_def powr_powr)

lemma powr_octave: "(2::real) powr (of_int s / 53) = 2 powr (of_int (s - 53) / 53) * 2"
proof -
  have e: "(of_int s :: real) / 53 = of_int (s - 53) / 53 + 1"
    by (simp add: field_simps)
  have "(2::real) powr (of_int s / 53) = 2 powr (of_int (s - 53) / 53 + 1)"
    by (rule arg_cong [where f = "\<lambda>x. 2 powr x"]) (rule e)
  also have "\<dots> = 2 powr (of_int (s - 53) / 53) * 2 powr 1"
    by (rule powr_add)
  finally show ?thesis by simp
qed

text \<open>
  Over the reals, where no operation rounds, both versions of \<open>freqForStepFromBase\<close> are
  the exponential law \<open>b \<times> 2^(s/53)\<close>, and the frequency of step \<open>s\<close> is twice the frequency
  of step \<open>s - 53\<close>. This is the law the code approximates in IEEE-754 doubles; it says
  nothing about the doubles the code computes.
\<close>

lemma exponential_law_over_the_reals:
  "freqForStepFromBase s b = b * 2 powr (of_int s / 53)
   \<and> freqForStepFromBase_p0 s b = b * 2 powr (of_int s / 53)
   \<and> freqForStepFromBase s b = freqForStepFromBase (s - 53) b * 2
   \<and> freqForStepFromBase_p0 s b = freqForStepFromBase_p0 (s - 53) b * 2"
proof -
  have a: "freqForStepFromBase s b = b * 2 powr (of_int s / 53)" for s
    by (simp add: freqForStepFromBase_def R_powr)
  have c: "freqForStepFromBase_p0 s b = b * 2 powr (of_int s / 53)" for s
    by (simp add: freqForStepFromBase_p0_def STEPS_def)
  have "freqForStepFromBase s b = freqForStepFromBase (s - 53) b * 2"
    unfolding a using powr_octave [of s] by simp
  moreover have "freqForStepFromBase_p0 s b = freqForStepFromBase_p0 (s - 53) b * 2"
    unfolding c using powr_octave [of s] by simp
  ultimately show ?thesis using a c by blast
qed


lemma two_powr_31_53_pow: "(2 powr (31 / 53) :: real) ^ 53 = 2 ^ 31"
proof -
  have "(2 powr (31 / 53) :: real) ^ 53 = (2 powr (31 / 53)) powr (of_nat 53)"
    by (rule powr_realpow [symmetric]) simp
  also have "\<dots> = 2 powr 31" by (simp add: powr_powr)
  also have "\<dots> = 2 ^ 31" using powr_realpow [of "2::real" 31] by simp
  finally show ?thesis .
qed

lemma fifth_below_pure: "2 powr (31 / 53) < (3 / 2 :: real)"
proof (rule ccontr)
  assume "\<not> ?thesis"
  then have "(3 / 2 :: real) \<le> 2 powr (31 / 53)" by simp
  then have "(3 / 2 :: real) ^ 53 \<le> (2 powr (31 / 53)) ^ 53"
    by (intro power_mono) simp_all
  moreover have "(2::real) ^ 31 < (3 / 2) ^ 53"
    by (simp add: power_divide)
  ultimately show False using two_powr_31_53_pow by simp
qed

lemma fifth_lower_bound: "(599 / 400 :: real) < 2 powr (31 / 53)"
proof (rule ccontr)
  assume "\<not> ?thesis"
  then have "2 powr (31 / 53) \<le> (599 / 400 :: real)" by simp
  then have "(2 powr (31 / 53)) ^ 53 \<le> (599 / 400 :: real) ^ 53"
    by (intro power_mono) simp_all
  moreover have "((599 / 400)::real) ^ 53 < 2 ^ 31"
    by (simp add: power_divide)
  ultimately show False using two_powr_31_53_pow by simp
qed

text \<open>
  Claim C9. At the reference base \<open>D4_FREQ = 293.6647679\<close> Hz, step 0 sounds the base itself,
  step 31 sounds \<open>293.6647679 \<times> 2^(31/53)\<close>, and that frequency is within 0.5 Hz of 440 Hz
  (in both versions of \<open>freqForStepFromBase\<close>).
\<close>

theorem reference_pitch_values:
  "freqForStepFromBase 0 D4_FREQ = D4_FREQ
   \<and> freqForStepFromBase_p0 0 D4_FREQ = D4_FREQ
   \<and> freqForStepFromBase 31 D4_FREQ = 2936647679 / 10000000 * 2 powr (31 / 53)
   \<and> freqForStepFromBase_p0 31 D4_FREQ = 2936647679 / 10000000 * 2 powr (31 / 53)
   \<and> \<bar>freqForStepFromBase 31 D4_FREQ - 440\<bar> < 1 / 2
   \<and> \<bar>freqForStepFromBase_p0 31 D4_FREQ - 440\<bar> < 1 / 2"
proof -
  have z: "freqForStepFromBase 0 D4_FREQ = D4_FREQ" "freqForStepFromBase_p0 0 D4_FREQ = D4_FREQ"
    using R_powr [of 0] by (simp_all add: freqForStepFromBase_def freqForStepFromBase_p0_def)
  have a: "freqForStepFromBase 31 D4_FREQ = 2936647679 / 10000000 * 2 powr (31 / 53)"
    by (simp add: freqForStepFromBase_def R_powr D4_FREQ_def)
  have b: "freqForStepFromBase_p0 31 D4_FREQ = 2936647679 / 10000000 * 2 powr (31 / 53)"
    by (simp add: freqForStepFromBase_p0_def STEPS_def D4_FREQ_def)
  have hi: "2936647679 / 10000000 * 2 powr (31 / 53) < (881 / 2 :: real)"
    using fifth_below_pure by (simp add: field_simps)
  have lo: "(879 / 2 :: real) < 2936647679 / 10000000 * 2 powr (31 / 53)"
    using fifth_lower_bound by (simp add: field_simps)
  have c: "\<bar>2936647679 / 10000000 * 2 powr (31 / 53) - 440\<bar> < (1 / 2 :: real)"
    using hi lo by linarith
  have "\<bar>freqForStepFromBase 31 D4_FREQ - 440\<bar> < 1 / 2"
    unfolding a by (rule c)
  moreover have "\<bar>freqForStepFromBase_p0 31 D4_FREQ - 440\<bar> < 1 / 2"
    unfolding b by (rule c)
  ultimately show ?thesis using z a b by blast
qed

section \<open>The step-list parser\<close>

lemma parseTokens_Inr:
  "parseTokens ts acc = Inr nums \<Longrightarrow> set nums \<subseteq> set acc \<union> {0..31}"
proof (induction ts arbitrary: acc)
  case Nil
  then show ?case by auto
next
  case (Cons t ts)
  show ?case
  proof (cases "Number t")
    case (Finite n)
    with Cons.prems have r: "0 \<le> n" "n \<le> 31" "parseTokens ts (acc @ [n]) = Inr nums"
      by (auto split: if_splits)
    from Cons.IH [OF r(3)] r(1,2) show ?thesis by auto
  next
    case Infinity
    with Cons.prems show ?thesis by simp
  qed
qed

lemma splitNonDigits_no_digit:
  "\<forall>c\<in>set s. \<not> isDigit c \<Longrightarrow> set (splitNonDigits cur b s) \<subseteq> {cur, []}"
  by (induction s arbitrary: cur b) auto

lemma parseStepList_cases:
  obtains (blank) "parseStepList s = \<lparr>steps = [], error = None\<rparr>"
  | (err) e where "parseStepList s = \<lparr>steps = [], error = Some e\<rparr>"
  | (ok) nums where
      "parseTokens (filter (\<lambda>t. t \<noteq> []) (splitNonDigits [] False s)) [] = Inr nums"
      "parseStepList s = \<lparr>steps = sort (rev (remdups (rev nums))), error = None\<rparr>"
  by (cases "trim s = []";
      cases "parseTokens (filter (\<lambda>t. t \<noteq> []) (splitNonDigits [] False s)) []")
     (simp_all add: parseStepList_def Let_def)

lemma parseStepList_shape:
  "(error (parseStepList s) \<noteq> None \<and> steps (parseStepList s) = [])
   \<or> (error (parseStepList s) = None \<and> sorted_wrt (<) (steps (parseStepList s))
       \<and> distinct (steps (parseStepList s))
       \<and> (\<forall>n\<in>set (steps (parseStepList s)). 0 \<le> n \<and> n \<le> 31))"
proof (cases s rule: parseStepList_cases)
  case blank
  then show ?thesis by simp
next
  case (err e)
  then show ?thesis by simp
next
  case (ok nums)
  from parseTokens_Inr [OF ok(1)] have "set nums \<subseteq> {0..31}" by simp
  then have "\<forall>n\<in>set (sort (rev (remdups (rev nums)))). 0 \<le> n \<and> n \<le> 31"
    by auto
  moreover have "distinct (sort (rev (remdups (rev nums))))"
    by simp
  moreover have "sorted_wrt (<) (sort (rev (remdups (rev nums))))"
    by (simp add: strict_sorted_iff)
  ultimately show ?thesis using ok(2) by simp
qed

lemma parseStepList_no_digits:
  assumes "\<forall>c\<in>set s. \<not> isDigit c"
  shows "parseStepList s = \<lparr>steps = [], error = None\<rparr>"
proof -
  have "filter (\<lambda>t. t \<noteq> []) (splitNonDigits [] False s) = []"
    using splitNonDigits_no_digit [OF assms, of "[]" False] by (auto simp: filter_empty_conv)
  then show ?thesis by (simp add: parseStepList_def)
qed

text \<open>
  Claim C10. For every input string, \<open>parseStepList\<close> returns either an error together with
  an empty step list, or no error and a step list that is strictly increasing, free of
  duplicates and within 0..31. A string without a digit (the empty string and a string of
  white space included) gives the empty step list and no error.
\<close>

theorem parseStepList_result:
  "((error (parseStepList s) \<noteq> None \<and> steps (parseStepList s) = [])
    \<or> (error (parseStepList s) = None \<and> sorted_wrt (<) (steps (parseStepList s))
        \<and> distinct (steps (parseStepList s))
        \<and> (\<forall>n\<in>set (steps (parseStepList s)). 0 \<le> n \<and> n \<le> 31)))
   \<and> ((\<forall>c\<in>set s. \<not> isDigit c) \<longrightarrow> parseStepList s = \<lparr>steps = [], error = None\<rparr>)"
  using parseStepList_shape [of s] parseStepList_no_digits [of s] by blast

theorem parseStepList_result_witness:
  "error (parseStepList ''31, 8 0;8'') = None
   \<and> steps (parseStepList ''31, 8 0;8'') = [0, 8, 31]
   \<and> sorted_wrt (<) (steps (parseStepList ''31, 8 0;8''))
   \<and> distinct (steps (parseStepList ''31, 8 0;8''))
   \<and> error (parseStepList ''40'') = Some (OutOfRange 40)
   \<and> steps (parseStepList ''40'') = []
   \<and> parseStepList '' - '' = \<lparr>steps = [], error = None\<rparr>"
proof -
  have e: "parseStepList ''31, 8 0;8'' = \<lparr>steps = [0, 8, 31], error = None\<rparr>"
    by code_simp
  have f: "parseStepList ''40'' = \<lparr>steps = [], error = Some (OutOfRange 40)\<rparr>"
    by code_simp
  have nd: "\<forall>c\<in>set '' - ''. \<not> isDigit c"
    by (simp add: isDigit_def)
  from parseStepList_result [of "''31, 8 0;8''"] e
  have "sorted_wrt (<) (steps (parseStepList ''31, 8 0;8''))
        \<and> distinct (steps (parseStepList ''31, 8 0;8''))"
    by simp
  moreover from parseStepList_result [of "'' - ''"] nd
  have "parseStepList '' - '' = \<lparr>steps = [], error = None\<rparr>"
    by blast
  ultimately show ?thesis using e f by simp
qed


section \<open>The smooth release curve\<close>

lemma smoothstep_mono:
  fixes t u :: real
  assumes "0 \<le> t" "t \<le> u" "u \<le> 1"
  shows "t * t * (3 - 2 * t) \<le> u * u * (3 - 2 * u)"
proof -
  have id: "u * u * (3 - 2 * u) - t * t * (3 - 2 * t)
            = (u - t) * (2 * (u * (1 - u)) + 2 * (t * (1 - t)) + u * (1 - t) + t * (1 - u))"
    by (simp add: algebra_simps)
  have "0 \<le> u" "t \<le> 1" using assms by simp_all
  then have "0 \<le> 2 * (u * (1 - u)) + 2 * (t * (1 - t)) + u * (1 - t) + t * (1 - u)"
    using assms by (intro add_nonneg_nonneg mult_nonneg_nonneg) simp_all
  then have "0 \<le> (u - t) * (2 * (u * (1 - u)) + 2 * (t * (1 - t)) + u * (1 - t) + t * (1 - u))"
    using assms by (intro mult_nonneg_nonneg) simp_all
  with id show ?thesis by linarith
qed

lemma curve_eq:
  "buildSmoothDecayCurve start endv points =
     map (curvePoint (max start (max endv (1 / 1000000))) (max endv (1 / 1000000))
            (max 2 (toInt32 points)))
         [0 ..< nat (max 2 (toInt32 points))]"
  by (auto simp: buildSmoothDecayCurve_def Let_def max_def)

lemma curvePoint_antimono:
  assumes "fl \<le> s0" "2 \<le> n" "i \<le> j" "int j \<le> n - 1"
  shows "curvePoint s0 fl n j \<le> curvePoint s0 fl n i"
proof -
  let ?t = "real i / real_of_int (n - 1)" and ?u = "real j / real_of_int (n - 1)"
  have p: "0 < real_of_int (n - 1)" using assms by simp
  have "0 \<le> ?t" using p by simp
  moreover have "?t \<le> ?u" using p assms by (simp add: divide_right_mono)
  moreover have "?u \<le> 1" using p assms by (simp add: of_int_le_iff [symmetric] del: of_int_le_iff)
  ultimately have "?t * ?t * (3 - 2 * ?t) \<le> ?u * ?u * (3 - 2 * ?u)"
    by (rule smoothstep_mono)
  then have "(s0 - fl) * (1 - ?u * ?u * (3 - 2 * ?u)) \<le> (s0 - fl) * (1 - ?t * ?t * (3 - 2 * ?t))"
    using assms(1) by (intro mult_left_mono) simp_all
  then show ?thesis by (simp add: curvePoint_def Let_def)
qed

lemma curvePoint_first: "curvePoint s0 fl n 0 = s0"
  by (simp add: curvePoint_def)

lemma curvePoint_last: "2 \<le> n \<Longrightarrow> curvePoint s0 fl n (nat (n - 1)) = fl"
  by (simp add: curvePoint_def Let_def)

lemma curvePoint_ge_floor:
  assumes "fl \<le> s0" "2 \<le> n" "int i \<le> n - 1"
  shows "fl \<le> curvePoint s0 fl n i"
  using curvePoint_antimono [OF assms(1,2) _ , of i "nat (n - 1)"] assms
  by (simp add: curvePoint_last)

lemma curve_length:
  "length (buildSmoothDecayCurve start endv points) = nat (max 2 (toInt32 points))"
  unfolding curve_eq by simp

lemma curve_hd:
  "hd (buildSmoothDecayCurve start endv points) = max start (max endv (1 / 1000000))"
proof -
  have "[0 ..< nat (max 2 (toInt32 points))] \<noteq> []" by simp
  then show ?thesis
    unfolding curve_eq by (simp add: hd_map curvePoint_first del: upt_eq_Nil_conv)
qed

lemma curve_last:
  "last (buildSmoothDecayCurve start endv points) = max endv (1 / 1000000)"
proof -
  let ?n = "max 2 (toInt32 points)"
  have n2: "2 \<le> ?n" by simp
  have ne: "[0 ..< nat ?n] \<noteq> []" by simp
  have "last (buildSmoothDecayCurve start endv points)
        = curvePoint (max start (max endv (1 / 1000000))) (max endv (1 / 1000000)) ?n
            (last [0 ..< nat ?n])"
    unfolding curve_eq using ne by (simp add: last_map del: upt_eq_Nil_conv)
  also have "last [0 ..< nat ?n] = nat (?n - 1)"
    using n2 by (simp add: last_upt nat_diff_distrib')
  finally show ?thesis using curvePoint_last [OF n2] by simp
qed

lemma curve_sorted: "sorted_wrt (\<ge>) (buildSmoothDecayCurve start endv points)"
proof -
  let ?n = "max 2 (toInt32 points)" and ?fl = "max endv (1 / 1000000)"
  let ?s0 = "max start ?fl"
  have n2: "2 \<le> ?n" by simp
  have fs: "?fl \<le> ?s0" by simp
  show ?thesis
    unfolding curve_eq sorted_wrt_map
  proof (rule sorted_wrt_mono_rel [where P = "(<)"])
    fix i j assume "i \<in> set [0 ..< nat ?n]" "j \<in> set [0 ..< nat ?n]" "i < j"
    then have "i \<le> j" "int j \<le> ?n - 1" by auto
    then show "curvePoint ?s0 ?fl ?n j \<le> curvePoint ?s0 ?fl ?n i"
      by (rule curvePoint_antimono [OF fs n2])
  next
    show "sorted_wrt (<) [0 ..< nat ?n]" by simp
  qed
qed

lemma curve_positive:
  assumes "y \<in> set (buildSmoothDecayCurve start endv points)"
  shows "0 < y"
proof -
  let ?n = "max 2 (toInt32 points)" and ?fl = "max endv (1 / 1000000)"
  let ?s0 = "max start ?fl"
  have n2: "2 \<le> ?n" by simp
  have fs: "?fl \<le> ?s0" by simp
  have flpos: "0 < ?fl" by (simp add: max_def)
  from assms obtain i where i: "i < nat ?n" "y = curvePoint ?s0 ?fl ?n i"
    unfolding curve_eq by auto
  then have "int i \<le> ?n - 1" by linarith
  from curvePoint_ge_floor [OF fs n2 this] i flpos show "0 < y" by simp
qed

lemma toInt32_id: "- (2 ^ 31) \<le> x \<Longrightarrow> x < 2 ^ 31 \<Longrightarrow> toInt32 x = x"
  by (simp add: toInt32_def)

text \<open>
  Over the reals, where neither the arithmetic nor the store into the \<open>Float32Array\<close>
  rounds: for every start value, floor and number of points, the
  curve has \<open>max 2 points\<close> elements (\<open>points\<close> read as a signed 32-bit integer; so
  exactly \<open>points\<close> of them when \<open>2 \<le> points < 2^31\<close>), it never increases, it begins
  at \<open>start\<close> raised to the effective floor and ends at the effective floor, where the
  effective floor is the given floor raised to \<open>10^-6\<close> (the given floor itself when that
  is at least \<open>10^-6\<close>), and every element is strictly positive. A start of 0 or below
  therefore begins at the effective floor.
\<close>

lemma curve_over_the_reals:
  "length (buildSmoothDecayCurve start endv points) = nat (max 2 (toInt32 points))
   \<and> (2 \<le> points \<and> points < 2 ^ 31
        \<longrightarrow> int (length (buildSmoothDecayCurve start endv points)) = points)
   \<and> sorted_wrt (\<ge>) (buildSmoothDecayCurve start endv points)
   \<and> hd (buildSmoothDecayCurve start endv points) = max start (max endv (1 / 1000000))
   \<and> last (buildSmoothDecayCurve start endv points) = max endv (1 / 1000000)
   \<and> (1 / 1000000 \<le> endv
        \<longrightarrow> hd (buildSmoothDecayCurve start endv points) = max start endv
            \<and> last (buildSmoothDecayCurve start endv points) = endv)
   \<and> (start \<le> 0
        \<longrightarrow> hd (buildSmoothDecayCurve start endv points) = max endv (1 / 1000000))
   \<and> (\<forall>y\<in>set (buildSmoothDecayCurve start endv points). 0 < y)"
proof -
  have "2 \<le> points \<and> points < 2 ^ 31
        \<longrightarrow> int (length (buildSmoothDecayCurve start endv points)) = points"
    using toInt32_id [of points] by (auto simp: curve_length)
  moreover have "1 / 1000000 \<le> endv
        \<longrightarrow> hd (buildSmoothDecayCurve start endv points) = max start endv
            \<and> last (buildSmoothDecayCurve start endv points) = endv"
    by (simp add: curve_hd curve_last max_def)
  moreover have "start \<le> 0
        \<longrightarrow> hd (buildSmoothDecayCurve start endv points) = max endv (1 / 1000000)"
    by (simp add: curve_hd max_def)
  ultimately show ?thesis
    using curve_length curve_sorted curve_hd curve_last curve_positive by blast
qed

lemma curve_over_the_reals_example:
  "buildSmoothDecayCurve 1 (1 / 10000) 3 = [1, 10001 / 20000, 1 / 10000]
   \<and> int (length (buildSmoothDecayCurve 1 (1 / 10000) 3)) = 3
   \<and> sorted_wrt (\<ge>) (buildSmoothDecayCurve 1 (1 / 10000) 3)
   \<and> hd (buildSmoothDecayCurve 1 (1 / 10000) 3) = 1
   \<and> last (buildSmoothDecayCurve 1 (1 / 10000) 3) = 1 / 10000
   \<and> hd (buildSmoothDecayCurve (-1) (1 / 10000) 3) = 1 / 10000"
proof -
  have c: "buildSmoothDecayCurve 1 (1 / 10000) 3 = [1, 10001 / 20000, 1 / 10000]"
    by (simp add: buildSmoothDecayCurve_def curvePoint_def toInt32_def Let_def upt_rec)
  have "(2::int) \<le> 3 \<and> (3::int) < 2 ^ 31" "(1 / 1000000 :: real) \<le> 1 / 10000"
    "(-1::real) \<le> 0"
    by simp_all
  with curve_over_the_reals [of 1 "1 / 10000" 3]
    curve_over_the_reals [of "-1" "1 / 10000" 3] c
  show ?thesis by (simp add: max_def)
qed

text \<open>
  Asked for one point the curve has two, and with a floor of 0 the curve ends at \<open>10^-6\<close>,
  not at the floor.
\<close>

lemma curve_guards_example:
  "length (buildSmoothDecayCurve 1 (1 / 10000) 1) = 2
   \<and> int (length (buildSmoothDecayCurve 1 (1 / 10000) 1)) \<noteq> 1
   \<and> last (buildSmoothDecayCurve 1 0 256) = 1 / 1000000
   \<and> last (buildSmoothDecayCurve 1 0 256) \<noteq> 0"
  by (simp add: curve_length curve_last toInt32_def)


section \<open>Liveness of the steps\<close>

lemma set_update_cases:
  "(k', v') \<in> set (AList.update k v al) \<Longrightarrow> (k' = k \<and> v' = v) \<or> (k', v') \<in> set al"
  by (induction al) (auto split: if_splits)

lemma set_delete_cases:
  "(k', v') \<in> set (AList.delete k al) \<Longrightarrow> (k', v') \<in> set al \<and> k' \<noteq> k"
  by (auto simp: AList.delete_eq)

lemma getCount_update: "getCount (AList.update k v m) k' = (if k' = k then v else getCount m k')"
  by (simp add: getCount_def update_conv')

lemma getCount_delete: "getCount (AList.delete k m) k' = (if k' = k then 0 else getCount m k')"
  by (simp add: getCount_def delete_conv')

lemma getCount_nonneg: "list_all (\<lambda>(k, c). 1 \<le> c) m \<Longrightarrow> 0 \<le> getCount m k"
  by (auto simp: getCount_def list_all_iff split: option.splits dest!: map_of_SomeD)

lemma glowCounts_tick [simp]: "glowCounts (tick st) = glowCounts st"
  and fadeInfo_tick [simp]: "fadeInfo (tick st) = fadeInfo st"
  by (simp_all add: tick_def)

lemma countsPositive_incGlow: "countsPositive st \<Longrightarrow> countsPositive (incGlow st step)"
  unfolding countsPositive_def incGlow_def
  using getCount_nonneg [of "glowCounts st" step]
  by (auto simp: list_all_iff dest!: set_update_cases)

lemma countsPositive_decGlow: "countsPositive st \<Longrightarrow> countsPositive (decGlow st step)"
  unfolding countsPositive_def decGlow_def Let_def
  by (auto simp: list_all_iff dest!: set_update_cases set_delete_cases)

lemma countsPositive_maybeBeginFade: "countsPositive st \<Longrightarrow> countsPositive (maybeBeginFade env st step)"
  unfolding countsPositive_def maybeBeginFade_def Let_def
  by simp

lemma fades_incGlow: "fadesOnlyAtLastSource st \<Longrightarrow> fadesOnlyAtLastSource (incGlow st step)"
  unfolding fadesOnlyAtLastSource_def incGlow_def
  by (auto simp: list_all_iff getCount_update dest!: set_delete_cases)

lemma fades_maybeBeginFade:
  "fadesOnlyAtLastSource st \<Longrightarrow> fadesOnlyAtLastSource (maybeBeginFade env st step)"
  unfolding fadesOnlyAtLastSource_def maybeBeginFade_def Let_def
  by (auto simp: list_all_iff dest!: set_update_cases)

lemma fades_decGlow: "fadesOnlyAtLastSource st \<Longrightarrow> fadesOnlyAtLastSource (decGlow st step)"
  unfolding fadesOnlyAtLastSource_def decGlow_def Let_def
  by (auto simp: list_all_iff getCount_update getCount_delete dest!: set_delete_cases)

lemma glowInv_applyGlowOp: "glowInv st \<Longrightarrow> glowInv (applyGlowOp st op)"
  by (cases op)
     (simp_all add: glowInv_def countsPositive_incGlow countsPositive_decGlow
        countsPositive_maybeBeginFade fades_incGlow fades_maybeBeginFade fades_decGlow)

lemma glowInv_foldl: "glowInv st \<Longrightarrow> glowInv (foldl applyGlowOp st ops)"
  by (induction ops arbitrary: st) (simp_all add: glowInv_applyGlowOp)

lemma glowInv_initialState: "glowInv initialState"
  by (simp add: glowInv_def countsPositive_def fadesOnlyAtLastSource_def initialState_def)

lemma glowInv_count_nonneg: "glowInv st \<Longrightarrow> 0 \<le> getCount (glowCounts st) k"
  by (simp add: glowInv_def countsPositive_def getCount_nonneg)

lemma glowInv_fade_count:
  "glowInv st \<Longrightarrow> map_of (fadeInfo st) k = Some f \<Longrightarrow> getCount (glowCounts st) k \<le> 1"
  by (auto simp: glowInv_def fadesOnlyAtLastSource_def list_all_iff dest!: map_of_SomeD)

lemma incGlow_revives:
  "countsPositive st \<Longrightarrow>
     map_of (fadeInfo (incGlow st k)) k = None \<and> 0 < getCount (glowCounts (incGlow st k)) k"
  using getCount_nonneg [of "glowCounts st" k]
  by (simp add: incGlow_def delete_conv' getCount_update countsPositive_def)

lemma countsPositive_p0:
  "countsPositive st \<Longrightarrow> countsPositive (applyGlowOp_p0 st op)"
proof (cases op)
  case (OpInc step)
  assume "countsPositive st"
  then show ?thesis
    unfolding OpInc countsPositive_def applyGlowOp_p0.simps incGlow_p0_def
    using getCount_nonneg [of "glowCounts st" step]
    by (auto simp: list_all_iff dest!: set_update_cases)
next
  case (OpFade env step)
  assume "countsPositive st"
  then show ?thesis
    unfolding OpFade countsPositive_def applyGlowOp_p0.simps maybeBeginFade_p0_def Let_def
    by simp
next
  case (OpDec step)
  assume "countsPositive st"
  then show ?thesis
    unfolding OpDec countsPositive_def applyGlowOp_p0.simps decGlow_p0_def Let_def
    by (auto simp: list_all_iff dest!: set_update_cases set_delete_cases)
qed

lemma countsPositive_foldl_p0:
  "countsPositive st \<Longrightarrow> countsPositive (foldl applyGlowOp_p0 st ops)"
  by (induction ops arbitrary: st) (simp_all add: countsPositive_p0)

lemma countsPositive_initialState_p0: "countsPositive initialState_p0"
  by (simp add: countsPositive_def initialState_p0_def)

lemma incGlow_effect:
  "getCount (glowCounts (incGlow s k)) k'
     = (if k' = k then getCount (glowCounts s) k + 1 else getCount (glowCounts s) k')
   \<and> map_of (fadeInfo (incGlow s k)) k' = (if k' = k then None else map_of (fadeInfo s) k')"
  by (simp add: incGlow_def getCount_update delete_conv')

lemma maybeBeginFade_effect:
  "glowCounts (maybeBeginFade env s k) = glowCounts s
   \<and> map_of (fadeInfo (maybeBeginFade env s k)) k'
       = (if k' = k \<and> getCount (glowCounts s) k \<le> 1
          then Some \<lparr>startedAt = nowMs env, durationMs = visualReleaseMs (release s)\<rparr>
          else map_of (fadeInfo s) k')"
  by (simp add: maybeBeginFade_def Let_def update_conv')

lemma decGlow_effect:
  "getCount (glowCounts (decGlow s k)) k'
     = (if k' = k then (if getCount (glowCounts s) k - 1 \<le> 0 then 0 else getCount (glowCounts s) k - 1)
        else getCount (glowCounts s) k')
   \<and> map_of (fadeInfo (decGlow s k)) k'
       = (if k' = k \<and> getCount (glowCounts s) k - 1 \<le> 0 then None else map_of (fadeInfo s) k')"
  by (simp add: decGlow_def Let_def getCount_update getCount_delete delete_conv')


text \<open>
  Claim C6, as the code has it. In the first file, from a state that satisfies the
  invariant (the initial state does) and after every sequence of \<open>incGlow\<close>,
  \<open>maybeBeginFade\<close> and \<open>decGlow\<close>: no count is negative; a step with a fade record has a
  count of at most 1 (the fade is recorded when the last source is told to stop, before its
  count is given back); \<open>incGlow\<close> on a step clears its fade record and leaves the step
  alive. What each operation does to the count and to the fade record of every step, from
  any state \<open>s\<close>: \<open>incGlow\<close> adds one to the count of its step and deletes its fade record;
  \<open>maybeBeginFade\<close> leaves the counts and records a fade for its step when its count is at
  most 1; \<open>decGlow\<close> takes one from the count of its step, and when the count reaches 0
  deletes the count and the fade record of the step together; nothing else changes. In the
  second file no count is ever negative either.
\<close>

theorem liveness_invariant:
  assumes "glowInv st" and "countsPositive st0"
  shows "glowInv (foldl applyGlowOp st ops)
     \<and> (\<forall>k. 0 \<le> getCount (glowCounts (foldl applyGlowOp st ops)) k)
     \<and> (\<forall>k f. map_of (fadeInfo (foldl applyGlowOp st ops)) k = Some f
            \<longrightarrow> getCount (glowCounts (foldl applyGlowOp st ops)) k \<le> 1)
     \<and> (\<forall>k. map_of (fadeInfo (incGlow (foldl applyGlowOp st ops) k)) k = None
            \<and> 0 < getCount (glowCounts (incGlow (foldl applyGlowOp st ops) k)) k)
     \<and> (getCount (glowCounts (incGlow s k)) k'
           = (if k' = k then getCount (glowCounts s) k + 1 else getCount (glowCounts s) k')
         \<and> map_of (fadeInfo (incGlow s k)) k' = (if k' = k then None else map_of (fadeInfo s) k'))
     \<and> (glowCounts (maybeBeginFade env s k) = glowCounts s
         \<and> map_of (fadeInfo (maybeBeginFade env s k)) k'
             = (if k' = k \<and> getCount (glowCounts s) k \<le> 1
                then Some \<lparr>startedAt = nowMs env, durationMs = visualReleaseMs (release s)\<rparr>
                else map_of (fadeInfo s) k'))
     \<and> (getCount (glowCounts (decGlow s k)) k'
           = (if k' = k
              then (if getCount (glowCounts s) k - 1 \<le> 0 then 0 else getCount (glowCounts s) k - 1)
              else getCount (glowCounts s) k')
         \<and> map_of (fadeInfo (decGlow s k)) k'
             = (if k' = k \<and> getCount (glowCounts s) k - 1 \<le> 0 then None
                else map_of (fadeInfo s) k'))
     \<and> countsPositive (foldl applyGlowOp_p0 st0 ops)
     \<and> (\<forall>k. 0 \<le> getCount (glowCounts (foldl applyGlowOp_p0 st0 ops)) k)"
proof -
  have i: "glowInv (foldl applyGlowOp st ops)"
    using assms(1) by (rule glowInv_foldl)
  then have c: "countsPositive (foldl applyGlowOp st ops)"
    by (simp add: glowInv_def)
  have p: "countsPositive (foldl applyGlowOp_p0 st0 ops)"
    using assms(2) by (rule countsPositive_foldl_p0)
  then have q: "\<forall>k. 0 \<le> getCount (glowCounts (foldl applyGlowOp_p0 st0 ops)) k"
    by (simp add: countsPositive_def getCount_nonneg)
  have a: "glowInv (foldl applyGlowOp st ops)
     \<and> (\<forall>k. 0 \<le> getCount (glowCounts (foldl applyGlowOp st ops)) k)
     \<and> (\<forall>k f. map_of (fadeInfo (foldl applyGlowOp st ops)) k = Some f
            \<longrightarrow> getCount (glowCounts (foldl applyGlowOp st ops)) k \<le> 1)
     \<and> (\<forall>k. map_of (fadeInfo (incGlow (foldl applyGlowOp st ops) k)) k = None
            \<and> 0 < getCount (glowCounts (incGlow (foldl applyGlowOp st ops) k)) k)"
    using i glowInv_count_nonneg [OF i] glowInv_fade_count [OF i] incGlow_revives [OF c]
    by blast
  show ?thesis
    using a p q incGlow_effect [of s k k'] maybeBeginFade_effect [of env s k k']
      decGlow_effect [of s k k']
    by blast
qed

theorem liveness_invariant_witness:
  "glowInv initialState \<and> countsPositive initialState_p0
   \<and> glowInv (foldl applyGlowOp initialState [OpInc 7, OpFade env0 7, OpInc 7])
   \<and> map_of (fadeInfo (foldl applyGlowOp initialState [OpInc 7, OpFade env0 7, OpInc 7])) 7 = None
   \<and> getCount (glowCounts (foldl applyGlowOp initialState [OpInc 7, OpFade env0 7, OpInc 7])) 7 = 2
   \<and> getCount (glowCounts (foldl applyGlowOp initialState [OpInc 7, OpFade env0 7, OpDec 7])) 7 = 0
   \<and> map_of (fadeInfo (foldl applyGlowOp initialState [OpInc 7, OpFade env0 7, OpDec 7])) 7 = None
   \<and> getCount (glowCounts (foldl applyGlowOp initialState [OpInc 5, OpInc 5, OpFade env0 5, OpDec 5])) 5 = 1
   \<and> map_of (fadeInfo (foldl applyGlowOp initialState [OpInc 5, OpInc 5, OpFade env0 5, OpDec 5])) 5 = None
   \<and> 0 \<le> getCount (glowCounts (foldl applyGlowOp_p0 initialState_p0 [OpInc 7, OpDec 7, OpDec 7])) 7"
proof -
  note t = liveness_invariant [OF glowInv_initialState countsPositive_initialState_p0]
  have s1: "getCount (glowCounts (foldl applyGlowOp initialState [OpInc 7, OpFade env0 7])) 7 = 1"
    "map_of (fadeInfo (foldl applyGlowOp initialState [OpInc 7, OpFade env0 7])) 7
       = Some \<lparr>startedAt = 0, durationMs = visualReleaseMs (45 / 100)\<rparr>"
    by (simp_all add: incGlow_def maybeBeginFade_def tick_def initialState_def getCount_def
          env0_def)
  have s2: "getCount (glowCounts (foldl applyGlowOp initialState [OpInc 5, OpInc 5, OpFade env0 5])) 5 = 2"
    "map_of (fadeInfo (foldl applyGlowOp initialState [OpInc 5, OpInc 5, OpFade env0 5])) 5 = None"
    by (simp_all add: incGlow_def maybeBeginFade_def tick_def initialState_def getCount_def
          env0_def)
  have e: "foldl applyGlowOp initialState [OpInc 7, OpFade env0 7, OpInc 7]
           = incGlow (foldl applyGlowOp initialState [OpInc 7, OpFade env0 7]) 7"
    "foldl applyGlowOp initialState [OpInc 7, OpFade env0 7, OpDec 7]
           = decGlow (foldl applyGlowOp initialState [OpInc 7, OpFade env0 7]) 7"
    "foldl applyGlowOp initialState [OpInc 5, OpInc 5, OpFade env0 5, OpDec 5]
           = decGlow (foldl applyGlowOp initialState [OpInc 5, OpInc 5, OpFade env0 5]) 5"
    by simp_all
  from t [of "[OpInc 7, OpFade env0 7, OpInc 7]"
          "foldl applyGlowOp initialState [OpInc 7, OpFade env0 7]" 7 7 env0]
    t [of "[OpInc 7, OpDec 7, OpDec 7]"
          "foldl applyGlowOp initialState [OpInc 5, OpInc 5, OpFade env0 5]" 5 5 env0]
    glowInv_initialState countsPositive_initialState_p0 s1 s2
  show ?thesis unfolding e by simp
qed

text \<open>
  The claim as stated fails: after a pointer started step 7 and was released, step 7 has a
  fade record while its count is still 1.
\<close>

theorem fade_with_positive_count_counterexample:
  "released = foldl applyGlowOp released []
   \<and> getCount (glowCounts released) 7 = 1
   \<and> map_of (fadeInfo released) 7
       = Some \<lparr>startedAt = 0, durationMs = visualReleaseMs (45 / 100)\<rparr>
   \<and> getCount (glowCounts (foldl applyGlowOp initialState [OpInc 7, OpFade env0 7])) 7 = 1
   \<and> map_of (fadeInfo (foldl applyGlowOp initialState [OpInc 7, OpFade env0 7])) 7 \<noteq> None"
  by (simp add: released_def stopForPointer_def startForPointer_def incGlow_def
        maybeBeginFade_def tick_def initialState_def getCount_def env0_def Let_def)

section \<open>Stopping a voice\<close>

lemma stop_stopped: "stopped (stop ctx r cb v)"
  by (simp add: stop_def Let_def)

lemma stop_idempotent: "stop ctx2 r2 cb2 (stop ctx1 r1 cb1 v) = stop ctx1 r1 cb1 v"
  using stop_stopped [of ctx1 r1 cb1 v] by (simp add: stop_def [of ctx2])

lemma newVoice_no_stop:
  "filter isOscStop (calls (newVoice ctx w f g a)) = []
   \<and> filter isOscSetOnEnded (calls (newVoice ctx w f g a)) = []"
  by (simp add: newVoice_def Let_def)

lemma stop_new_once:
  "length (filter isOscStop (calls (stop ctx2 r2 cb2 (stop ctx1 r1 cb1 (newVoice ctx w f g a))))) = 1
  \<and> length (filter isOscSetOnEnded (calls (stop ctx2 r2 cb2 (stop ctx1 r1 cb1 (newVoice ctx w f g a))))) \<le> 1"
  unfolding stop_idempotent
  by (simp add: stop_def newVoice_def Let_def split: option.splits)

section \<open>Duplicate note-on\<close>

lemma startForKey_duplicate_noop:
  "map_of (activeKeys st) key \<noteq> None \<Longrightarrow> startForKey ctx st key step = st"
  by (simp add: startForKey_def)

lemma nextVoice_tick [simp]: "nextVoice (tick st) = nextVoice st"
  by (simp add: tick_def)

lemma startForPointer_constructs:
  "nextVoice (startForPointer ctx st pointerId step) = nextVoice st + 1
   \<and> map_of (activeVoices (startForPointer ctx st pointerId step)) pointerId = Some (nextVoice st, step)
   \<and> getCount (glowCounts (startForPointer ctx st pointerId step)) step
       = getCount (glowCounts st) step + 1"
  by (simp add: startForPointer_def Let_def incGlow_def tick_def update_conv' getCount_update)

text \<open>
  Claim C2. Only \<open>startForKey\<close> of the first file guards a duplicate note-on
  (\<open>startForKey_duplicate_noop\<close> above). \<open>startForPointer\<close> has no guard: a second start for
  pointer 1, which already holds voice 0 at step 10, constructs voice 1, replaces the
  registry entry and raises the count of step 10 to 2, and voice 0 is left sounding with no
  registry entry that could stop it. In the second file \<open>startForKey\<close> has no guard
  either: two starts for the key \<open>a\<close> construct two voices.
\<close>

theorem startForPointer_duplicate_retriggers:
  "map_of (activeVoices heldOnce) 1 = Some (0, 10)
   \<and> nextVoice heldOnce = 1
   \<and> getCount (glowCounts heldOnce) 10 = 1
   \<and> nextVoice heldTwice = 2
   \<and> map_of (activeVoices heldTwice) 1 = Some (1, 10)
   \<and> getCount (glowCounts heldTwice) 10 = 2
   \<and> map_option stopped (map_of (voices heldTwice) 0) = Some False
   \<and> heldTwice \<noteq> heldOnce
   \<and> nextVoice keyTwice_p0 = 2
   \<and> getCount (glowCounts keyTwice_p0) 10 = 2"
  by (simp add: heldTwice_def heldOnce_def startForPointer_def Let_def incGlow_def tick_def
       initialState_def getCount_def newVoice_def keyTwice_p0_def startForKey_p0_def
       startVoice_p0_def incGlow_p0_def initialState_p0_def)

section \<open>Retuning a held pointer\<close>

lemma retuneForPointer_absent:
  "map_of (activeVoices st) pointerId = None \<Longrightarrow> retuneForPointer ctx st pointerId step = st"
  by (simp add: retuneForPointer_def)

lemma retuneForPointer_transfers:
  assumes "map_of (activeVoices st) pointerId = Some (voice, p)" and "p \<noteq> q"
  shows "map_of (activeVoices (retuneForPointer ctx st pointerId q)) pointerId = Some (voice, q)"
    and "nextVoice (retuneForPointer ctx st pointerId q) = nextVoice st"
    and "voices (retuneForPointer ctx st pointerId q)
         = AList.map_entry voice (setFrequency ctx (freqForStepFromBase q (baseFreq st))) (voices st)"
    and "getCount (glowCounts (retuneForPointer ctx st pointerId q)) p
         = max 0 (getCount (glowCounts st) p - 1)"
    and "getCount (glowCounts (retuneForPointer ctx st pointerId q)) q
         = getCount (glowCounts st) q + 1"
  using assms
  by (simp_all add: retuneForPointer_def Let_def incGlow_def decGlow_def tick_def update_conv'
        getCount_update getCount_delete baseFreq_def)

text \<open>
  Claim C5. In the first file \<open>retuneForPointer\<close> keeps the voice, calls only
  \<open>setFrequency\<close> on it, takes one from the count of the old step and adds one to the
  count of the new step, and does nothing for a pointer without a voice
  (\<open>retuneForPointer_transfers\<close> and \<open>retuneForPointer_absent\<close> above). The
  \<open>retuneForPointer\<close> of the second file only increments: after pointer 1 starts at step 10
  and is dragged to step 15, step 10 still counts 1.
\<close>

theorem retuneForPointer_p0_keeps_old_count:
  "map_of (activeVoices heldOnce_p0) 1 = Some (0, 10)
   \<and> getCount (glowCounts heldOnce_p0) 10 = 1
   \<and> map_of (activeVoices dragged_p0) 1 = Some (0, 15)
   \<and> nextVoice dragged_p0 = 1
   \<and> getCount (glowCounts dragged_p0) 15 = 1
   \<and> getCount (glowCounts dragged_p0) 10 = 1"
  by (simp add: dragged_p0_def heldOnce_p0_def retuneForPointer_p0_def startForPointer_p0_def
       startVoice_p0_def Let_def incGlow_p0_def tick_def initialState_p0_def getCount_def)

section \<open>Changing the base frequency\<close>

lemma map_fst_map_entry: "map fst (AList.map_entry k f xs) = map fst xs"
  by (induction xs) auto

lemma retune_fold_map_of:
  fixes s :: "('v, 'p, 'z) kb_state_scheme"
  shows "map_of (voices (fold (\<lambda>(pointerId, voice, step) s.
             s\<lparr>voices := AList.map_entry voice (h (fr step)) (voices s),
               activeHz := Some (fr step), activeStep := Some step\<rparr>) al s)) r
   = map_option (fold (\<lambda>step. h (fr step)) (heldStepsOf r al)) (map_of (voices s) r)"
proof (induction al arbitrary: s)
  case Nil
  show ?case by (simp add: heldStepsOf_def option.map_ident)
next
  case (Cons e al)
  obtain p v step where e: "e = (p, v, step)" by (cases e)
  show ?case
    unfolding e
    by (simp add: Cons.IH heldStepsOf_def map_of_map_entry option.map_comp comp_def
          split: option.splits)
qed

lemma retune_fold_fields:
  fixes s :: "('v, 'p, 'z) kb_state_scheme"
  shows "(\<lambda>s'. nextVoice s' = nextVoice s \<and> map fst (voices s') = map fst (voices s)
     \<and> activeVoices s' = activeVoices s \<and> activeKeys s' = activeKeys s
     \<and> latchedVoices s' = latchedVoices s \<and> transpose12 s' = transpose12 s
     \<and> glowCounts s' = glowCounts s \<and> fadeInfo s' = fadeInfo s)
    (fold (\<lambda>(pointerId, voice, step) s.
             s\<lparr>voices := AList.map_entry voice (h (fr step)) (voices s),
               activeHz := Some (fr step), activeStep := Some step\<rparr>) al s)"
proof (induction al arbitrary: s)
  case Nil
  show ?case by simp
next
  case (Cons e al)
  obtain p v step where e: "e = (p, v, step)" by (cases e)
  show ?case
    unfolding e using Cons.IH by (simp add: map_fst_map_entry)
qed

lemma fold_setFrequency:
  "fold (\<lambda>step. setFrequency ctx (fr step)) qs
   = (\<lambda>x. x\<lparr>calls := calls x
         @ map (\<lambda>step. OscFrequencySetTargetAtTime (fr step) (currentTime ctx) (1 / 100)) qs\<rparr>)"
proof
  fix x show "fold (\<lambda>step. setFrequency ctx (fr step)) qs x
   = x\<lparr>calls := calls x
         @ map (\<lambda>step. OscFrequencySetTargetAtTime (fr step) (currentTime ctx) (1 / 100)) qs\<rparr>"
    by (induction qs arbitrary: x) (simp_all add: setFrequency_def)
qed

lemma fold_setFrequency_p0:
  "fold (\<lambda>step. setFrequency_p0 (fr step)) qs
   = (\<lambda>x. x\<lparr>calls := calls x @ map (\<lambda>step. OscFrequencyValue (fr step)) qs\<rparr>)"
proof
  fix x show "fold (\<lambda>step. setFrequency_p0 (fr step)) qs x
   = x\<lparr>calls := calls x @ map (\<lambda>step. OscFrequencyValue (fr step)) qs\<rparr>"
    by (induction qs arbitrary: x) (simp_all add: setFrequency_p0_def)
qed

lemma setTranspose12_retunes:
  assumes "v \<noteq> transpose12 st"
  shows "transpose12 (setTranspose12 ctx st v) = v"
    and "nextVoice (setTranspose12 ctx st v) = nextVoice st"
    and "map fst (voices (setTranspose12 ctx st v)) = map fst (voices st)"
    and "activeVoices (setTranspose12 ctx st v) = activeVoices st"
    and "activeKeys (setTranspose12 ctx st v) = activeKeys st"
    and "latchedVoices (setTranspose12 ctx st v) = latchedVoices st"
    and "map_of (voices (setTranspose12 ctx st v)) r
         = map_option (\<lambda>x. x\<lparr>calls := calls x
              @ map (\<lambda>step. OscFrequencySetTargetAtTime
                       (freqForStepFromBase step (baseFreqFromSemitones v)) (currentTime ctx) (1 / 100))
                  (heldStepsOf r (activeVoices st))\<rparr>)
             (map_of (voices st) r)"
proof -
  let ?st = "st\<lparr>transpose12 := v\<rparr>"
  have e: "setTranspose12 ctx st v = baseFreqEffect ctx ?st"
    using assms by (simp add: setTranspose12_def)
  note f = retune_fold_fields [of "\<lambda>step. freqForStepFromBase step (baseFreq ?st)"
      "setFrequency ctx" "activeVoices ?st" ?st]
  show "transpose12 (setTranspose12 ctx st v) = v"
    and "nextVoice (setTranspose12 ctx st v) = nextVoice st"
    and "map fst (voices (setTranspose12 ctx st v)) = map fst (voices st)"
    and "activeVoices (setTranspose12 ctx st v) = activeVoices st"
    and "activeKeys (setTranspose12 ctx st v) = activeKeys st"
    and "latchedVoices (setTranspose12 ctx st v) = latchedVoices st"
    unfolding e using f by (simp_all add: baseFreqEffect_def baseFreqEffect_p0_def Let_def)
  show "map_of (voices (setTranspose12 ctx st v)) r
         = map_option (\<lambda>x. x\<lparr>calls := calls x
              @ map (\<lambda>step. OscFrequencySetTargetAtTime
                       (freqForStepFromBase step (baseFreqFromSemitones v)) (currentTime ctx) (1 / 100))
                  (heldStepsOf r (activeVoices st))\<rparr>)
             (map_of (voices st) r)"
    unfolding e baseFreqEffect_def Let_def
    using retune_fold_map_of [of "\<lambda>step. freqForStepFromBase step (baseFreq ?st)"
        "setFrequency ctx" "activeVoices ?st" ?st r]
    by (simp add: fold_setFrequency baseFreq_def)
qed

lemma setTranspose12_p0_retunes:
  assumes "v \<noteq> transpose12 st"
  shows "transpose12 (setTranspose12_p0 st v) = v"
    and "nextVoice (setTranspose12_p0 st v) = nextVoice st"
    and "map fst (voices (setTranspose12_p0 st v)) = map fst (voices st)"
    and "activeVoices (setTranspose12_p0 st v) = activeVoices st"
    and "activeKeys (setTranspose12_p0 st v) = activeKeys st"
    and "latchedVoices (setTranspose12_p0 st v) = latchedVoices st"
    and "map_of (voices (setTranspose12_p0 st v)) r
         = map_option (\<lambda>x. x\<lparr>calls := calls x
              @ map (\<lambda>step. OscFrequencyValue
                       (freqForStepFromBase_p0 step (baseFreqFromSemitones v)))
                  (heldStepsOf r (activeVoices st))\<rparr>)
             (map_of (voices st) r)"
proof -
  let ?st = "st\<lparr>transpose12 := v\<rparr>"
  have e: "setTranspose12_p0 st v = baseFreqEffect_p0 ?st"
    using assms by (simp add: setTranspose12_p0_def)
  note f = retune_fold_fields [of "\<lambda>step. freqForStepFromBase_p0 step (baseFreq ?st)"
      "setFrequency_p0" "activeVoices ?st" ?st]
  show "transpose12 (setTranspose12_p0 st v) = v"
    and "nextVoice (setTranspose12_p0 st v) = nextVoice st"
    and "map fst (voices (setTranspose12_p0 st v)) = map fst (voices st)"
    and "activeVoices (setTranspose12_p0 st v) = activeVoices st"
    and "activeKeys (setTranspose12_p0 st v) = activeKeys st"
    and "latchedVoices (setTranspose12_p0 st v) = latchedVoices st"
    unfolding e using f by (simp_all add: baseFreqEffect_def baseFreqEffect_p0_def Let_def)
  show "map_of (voices (setTranspose12_p0 st v)) r
         = map_option (\<lambda>x. x\<lparr>calls := calls x
              @ map (\<lambda>step. OscFrequencyValue
                       (freqForStepFromBase_p0 step (baseFreqFromSemitones v)))
                  (heldStepsOf r (activeVoices st))\<rparr>)
             (map_of (voices st) r)"
    unfolding e baseFreqEffect_p0_def Let_def
    using retune_fold_map_of [of "\<lambda>step. freqForStepFromBase_p0 step (baseFreq ?st)"
        "setFrequency_p0" "activeVoices ?st" ?st r]
    by (simp add: fold_setFrequency_p0 baseFreq_def)
qed

lemma heldStepsOf_none:
  "\<forall>e\<in>set al. fst (snd e) \<noteq> r \<Longrightarrow> heldStepsOf r al = []"
  by (auto simp: heldStepsOf_def filter_empty_conv)

lemma setTranspose12_untouched:
  assumes "v \<noteq> transpose12 st" and "\<forall>e\<in>set (activeVoices st). fst (snd e) \<noteq> r"
  shows "map_of (voices (setTranspose12 ctx st v)) r = map_of (voices st) r"
  by (simp add: setTranspose12_retunes(7) [OF assms(1)] heldStepsOf_none [OF assms(2)]
        option.map_ident)

lemma setTranspose12_p0_untouched:
  assumes "v \<noteq> transpose12 st" and "\<forall>e\<in>set (activeVoices st). fst (snd e) \<noteq> r"
  shows "map_of (voices (setTranspose12_p0 st v)) r = map_of (voices st) r"
  by (simp add: setTranspose12_p0_retunes(7) [OF assms(1)] heldStepsOf_none [OF assms(2)]
        option.map_ident)

text \<open>
  Claim C3, as the code has it. A change of the base frequency retunes the voices held by
  pointers, and only those: no voice is constructed or removed, the three registries are
  unchanged, each voice receives one \<open>setFrequency\<close> call for every pointer that holds it
  (at the frequency of that pointer's step over the new base) and nothing else, and a
  voice that no pointer holds (held by a key, or latched) is left as it was. Both files.
\<close>

theorem base_change_retunes_pointer_voices:
  "(v \<noteq> transpose12 st \<longrightarrow>
      transpose12 (setTranspose12 ctx st v) = v
      \<and> nextVoice (setTranspose12 ctx st v) = nextVoice st
      \<and> map fst (voices (setTranspose12 ctx st v)) = map fst (voices st)
      \<and> activeVoices (setTranspose12 ctx st v) = activeVoices st
      \<and> activeKeys (setTranspose12 ctx st v) = activeKeys st
      \<and> latchedVoices (setTranspose12 ctx st v) = latchedVoices st
      \<and> (\<forall>r. map_of (voices (setTranspose12 ctx st v)) r
              = map_option (\<lambda>x. x\<lparr>calls := calls x
                   @ map (\<lambda>step. OscFrequencySetTargetAtTime
                            (freqForStepFromBase step (baseFreqFromSemitones v))
                            (currentTime ctx) (1 / 100))
                       (heldStepsOf r (activeVoices st))\<rparr>)
                  (map_of (voices st) r))
      \<and> (\<forall>r. (\<forall>e\<in>set (activeVoices st). fst (snd e) \<noteq> r)
              \<longrightarrow> map_of (voices (setTranspose12 ctx st v)) r = map_of (voices st) r))
   \<and> (v \<noteq> transpose12 st0 \<longrightarrow>
      transpose12 (setTranspose12_p0 st0 v) = v
      \<and> nextVoice (setTranspose12_p0 st0 v) = nextVoice st0
      \<and> map fst (voices (setTranspose12_p0 st0 v)) = map fst (voices st0)
      \<and> activeVoices (setTranspose12_p0 st0 v) = activeVoices st0
      \<and> activeKeys (setTranspose12_p0 st0 v) = activeKeys st0
      \<and> latchedVoices (setTranspose12_p0 st0 v) = latchedVoices st0
      \<and> (\<forall>r. map_of (voices (setTranspose12_p0 st0 v)) r
              = map_option (\<lambda>x. x\<lparr>calls := calls x
                   @ map (\<lambda>step. OscFrequencyValue
                            (freqForStepFromBase_p0 step (baseFreqFromSemitones v)))
                       (heldStepsOf r (activeVoices st0))\<rparr>)
                  (map_of (voices st0) r))
      \<and> (\<forall>r. (\<forall>e\<in>set (activeVoices st0). fst (snd e) \<noteq> r)
              \<longrightarrow> map_of (voices (setTranspose12_p0 st0 v)) r = map_of (voices st0) r))"
proof -
  have a: "v \<noteq> transpose12 st \<longrightarrow>
      (\<forall>r. (\<forall>e\<in>set (activeVoices st). fst (snd e) \<noteq> r)
              \<longrightarrow> map_of (voices (setTranspose12 ctx st v)) r = map_of (voices st) r)"
    using setTranspose12_untouched [of v st _ ctx] by blast
  have b: "v \<noteq> transpose12 st0 \<longrightarrow>
      (\<forall>r. (\<forall>e\<in>set (activeVoices st0). fst (snd e) \<noteq> r)
              \<longrightarrow> map_of (voices (setTranspose12_p0 st0 v)) r = map_of (voices st0) r)"
    using setTranspose12_p0_untouched [of v st0] by blast
  show ?thesis
    using a b setTranspose12_retunes [of v st ctx] setTranspose12_p0_retunes [of v st0]
    by blast
qed

theorem base_change_retunes_pointer_voices_witness:
  "map_option calls (map_of (voices (setTranspose12 env0 heldOnce 12)) 0)
     = Some (calls (newVoice env0 Sine (freqForStepFromBase 10 D4_FREQ) (15 / 100) (1 / 100))
             @ [OscFrequencySetTargetAtTime (freqForStepFromBase 10 (2 * D4_FREQ)) 0 (1 / 100)])
   \<and> nextVoice (setTranspose12 env0 heldOnce 12) = 1
   \<and> map_option calls (map_of (voices (setTranspose12_p0 heldOnce_p0 12)) 0)
     = Some (calls (newVoice_p0 env0 Sine (freqForStepFromBase_p0 10 D4_FREQ) (15 / 100) (2 / 100))
             @ [OscFrequencyValue (freqForStepFromBase_p0 10 (2 * D4_FREQ))])
   \<and> nextVoice (setTranspose12_p0 heldOnce_p0 12) = 1
   \<and> map_of (voices (setTranspose12 env0 heldOnce 12)) 5 = map_of (voices heldOnce) 5"
proof -
  have h: "12 \<noteq> transpose12 heldOnce" "activeVoices heldOnce = [(1, 0, 10)]"
    "nextVoice heldOnce = 1"
    "voices heldOnce = [(0, newVoice env0 Sine (freqForStepFromBase 10 D4_FREQ) (15 / 100) (1 / 100))]"
    by (simp_all add: heldOnce_def startForPointer_def incGlow_def tick_def initialState_def
          Let_def baseFreq_def baseFreqFromSemitones_def)
  have h0: "12 \<noteq> transpose12 heldOnce_p0" "activeVoices heldOnce_p0 = [(1, 0, 10)]"
    "nextVoice heldOnce_p0 = 1"
    "voices heldOnce_p0 = [(0, newVoice_p0 env0 Sine (freqForStepFromBase_p0 10 D4_FREQ) (15 / 100) (2 / 100))]"
    by (simp_all add: heldOnce_p0_def startForPointer_p0_def startVoice_p0_def incGlow_p0_def
          tick_def initialState_p0_def Let_def baseFreq_def baseFreqFromSemitones_def)
  have b: "baseFreqFromSemitones 12 = 2 * D4_FREQ"
    by (simp add: baseFreqFromSemitones_def)
  have s: "\<forall>e\<in>set (activeVoices heldOnce). fst (snd e) \<noteq> 5"
    by (simp add: h)
  from base_change_retunes_pointer_voices [of 12 heldOnce env0 heldOnce_p0] h h0 b s
  show ?thesis
    by (simp add: heldStepsOf_def env0_def)
qed

text \<open>
  The claim as stated fails: a voice latched at step 20 is not retuned when the base moves
  up an octave; no call reaches it.
\<close>

theorem latched_voice_not_retuned_counterexample:
  "map_of (latchedVoices latchedAt20) 20 = Some 0
   \<and> baseFreq latchedAt20 = D4_FREQ
   \<and> baseFreq (setTranspose12 env0 latchedAt20 12) = 2 * D4_FREQ
   \<and> latchedVoices (setTranspose12 env0 latchedAt20 12) = latchedVoices latchedAt20
   \<and> voices (setTranspose12 env0 latchedAt20 12) = voices latchedAt20"
  by (simp add: latchedAt20_def toggleLatched_def initialState_def Let_def incGlow_def tick_def
       setTranspose12_def baseFreqEffect_def baseFreq_def baseFreqFromSemitones_def)

section \<open>The latch\<close>

lemma toggleLatched_start:
  assumes "map_of (latchedVoices st) step = None"
  shows "nextVoice (toggleLatched ctx st step) = nextVoice st + 1
     \<and> map_of (latchedVoices (toggleLatched ctx st step)) step = Some (nextVoice st)
     \<and> map_of (voices (toggleLatched ctx st step)) (nextVoice st)
         = Some (newVoice ctx (waveform st) (freqForStepFromBase step (baseFreq st)) (gain st) (attack st))
     \<and> release (toggleLatched ctx st step) = release st"
  using assms
  by (simp add: toggleLatched_def Let_def incGlow_def tick_def update_conv')

lemma toggleLatched_stop:
  assumes "map_of (latchedVoices st) step = Some v"
  shows "nextVoice (toggleLatched ctx st step) = nextVoice st
     \<and> map_of (latchedVoices (toggleLatched ctx st step)) step = None
     \<and> voices (toggleLatched ctx st step)
         = AList.map_entry v (stop ctx (release st) (Some (DecGlow step))) (voices st)"
  using assms
  by (simp add: toggleLatched_def Let_def maybeBeginFade_def tick_def delete_conv')

lemma toggleLatched_distinct:
  "distinct (map fst (latchedVoices st))
   \<Longrightarrow> distinct (map fst (latchedVoices (toggleLatched ctx st step)))"
  by (simp add: toggleLatched_def Let_def incGlow_def maybeBeginFade_def tick_def
        distinct_update distinct_delete split: option.splits)

lemma toggleLatched_twice:
  assumes "map_of (latchedVoices st) step = None"
  shows "map_of (latchedVoices (toggleLatched ctx' (toggleLatched ctx st step) step)) step = None
     \<and> nextVoice (toggleLatched ctx' (toggleLatched ctx st step) step) = nextVoice st + 1
     \<and> map_of (voices (toggleLatched ctx' (toggleLatched ctx st step) step)) (nextVoice st)
         = Some (stop ctx' (release st) (Some (DecGlow step))
                  (newVoice ctx (waveform st) (freqForStepFromBase step (baseFreq st)) (gain st) (attack st)))"
proof -
  let ?s1 = "toggleLatched ctx st step"
  note a = toggleLatched_start [OF assms, of ctx]
  from a have l: "map_of (latchedVoices ?s1) step = Some (nextVoice st)" by simp
  note b = toggleLatched_stop [OF l, of ctx']
  from a b show ?thesis by (simp add: map_of_map_entry)
qed

lemma toggleLatched_p0_start:
  assumes "map_of (latchedVoices st) step = None"
  shows "nextVoice (toggleLatched_p0 ctx st step) = nextVoice st + 1
     \<and> map_of (latchedVoices (toggleLatched_p0 ctx st step)) step = Some (nextVoice st)
     \<and> map_of (voices (toggleLatched_p0 ctx st step)) (nextVoice st)
         = Some (newVoice_p0 ctx (waveform st) (freqForStepFromBase_p0 step (baseFreq st)) (gain st) (attack st))
     \<and> release (toggleLatched_p0 ctx st step) = release st"
  using assms
  by (simp add: toggleLatched_p0_def Let_def incGlow_p0_def tick_def update_conv')

lemma toggleLatched_p0_stop:
  assumes "map_of (latchedVoices st) step = Some v"
  shows "nextVoice (toggleLatched_p0 ctx st step) = nextVoice st
     \<and> map_of (latchedVoices (toggleLatched_p0 ctx st step)) step = None
     \<and> voices (toggleLatched_p0 ctx st step)
         = AList.map_entry v (stop_p0 ctx (release st) (Some (DecGlow step))) (voices st)"
  using assms
  by (simp add: toggleLatched_p0_def Let_def maybeBeginFade_p0_def tick_def delete_conv')

lemma toggleLatched_p0_distinct:
  "distinct (map fst (latchedVoices st))
   \<Longrightarrow> distinct (map fst (latchedVoices (toggleLatched_p0 ctx st step)))"
  by (simp add: toggleLatched_p0_def Let_def incGlow_p0_def maybeBeginFade_p0_def tick_def
        distinct_update distinct_delete split: option.splits)

lemma toggleLatched_p0_twice:
  assumes "map_of (latchedVoices st) step = None"
  shows "map_of (latchedVoices (toggleLatched_p0 ctx' (toggleLatched_p0 ctx st step) step)) step = None
     \<and> nextVoice (toggleLatched_p0 ctx' (toggleLatched_p0 ctx st step) step) = nextVoice st + 1
     \<and> map_of (voices (toggleLatched_p0 ctx' (toggleLatched_p0 ctx st step) step)) (nextVoice st)
         = Some (stop_p0 ctx' (release st) (Some (DecGlow step))
                  (newVoice_p0 ctx (waveform st) (freqForStepFromBase_p0 step (baseFreq st)) (gain st) (attack st)))"
proof -
  let ?s1 = "toggleLatched_p0 ctx st step"
  note a = toggleLatched_p0_start [OF assms, of ctx]
  from a have l: "map_of (latchedVoices ?s1) step = Some (nextVoice st)" by simp
  note b = toggleLatched_p0_stop [OF l, of ctx']
  from a b show ?thesis by (simp add: map_of_map_entry)
qed

lemma stop_stops:
  "stopped (stop ctx r cb x)
   \<and> (\<not> stopped x \<longrightarrow>
        last (calls (stop ctx r cb x)) = OscStop (currentTime ctx + max (3 / 100) r + 1 / 100)
        \<and> length (filter isOscStop (calls (stop ctx r cb x)))
            = length (filter isOscStop (calls x)) + 1)"
  by (simp add: stop_def Let_def split: option.splits)

lemma stop_p0_stops:
  "length (filter isOscStop (calls (stop_p0 ctx r cb x))) = length (filter isOscStop (calls x)) + 1
   \<and> OscStop (currentTime ctx + max (2 / 100) r + 5 / 1000) \<in> set (calls (stop_p0 ctx r cb x))"
  by (simp add: stop_p0_def Let_def)

lemma stop_newVoice:
  "stopped (stop ctx' r cb (newVoice ctx w f g a))
   \<and> length (filter isOscStop (calls (stop ctx' r cb (newVoice ctx w f g a)))) = 1
   \<and> last (calls (stop ctx' r cb (newVoice ctx w f g a)))
       = OscStop (currentTime ctx' + max (3 / 100) r + 1 / 100)"
  by (simp add: stop_def newVoice_def Let_def split: option.splits)

lemma stop_p0_newVoice_p0:
  "length (filter isOscStop (calls (stop_p0 ctx' r cb (newVoice_p0 ctx w f g a)))) = 1
   \<and> OscStop (currentTime ctx' + max (2 / 100) r + 5 / 1000)
       \<in> set (calls (stop_p0 ctx' r cb (newVoice_p0 ctx w f g a)))"
  by (simp add: stop_p0_def newVoice_p0_def Let_def)

lemma toggleLatched_stop_voice:
  assumes "map_of (latchedVoices st) step = Some v" and "map_of (voices st) v = Some x"
  shows "map_of (voices (toggleLatched ctx st step)) v
           = Some (stop ctx (release st) (Some (DecGlow step)) x)"
  using toggleLatched_stop [OF assms(1), of ctx] assms(2) by (simp add: map_of_map_entry)

lemma toggleLatched_p0_stop_voice:
  assumes "map_of (latchedVoices st) step = Some v" and "map_of (voices st) v = Some x"
  shows "map_of (voices (toggleLatched_p0 ctx st step)) v
           = Some (stop_p0 ctx (release st) (Some (DecGlow step)) x)"
  using toggleLatched_p0_stop [OF assms(1), of ctx] assms(2) by (simp add: map_of_map_entry)


text \<open>
  Claim C7. With sustain on, a pointer-down is a latch activation and the pointer-up is
  ignored (it leaves the state as it is). An activation on a step without a latched voice
  constructs exactly one voice and registers it for the step; an activation on a step with
  a latched voice stops that voice (the voice is marked stopped in the first file, and its
  oscillator receives \<^verbatim>\<open>osc.stop\<close> at the end of the release, once more than before) and
  removes the entry, and constructs nothing; so a second activation right after the first
  leaves the step without a latched voice, with one voice constructed in all and that
  voice stopped, with exactly one \<^verbatim>\<open>osc.stop\<close>. The map never holds two entries for a step.
  Both files.
\<close>

theorem latch_alternation:
  "(sustain st \<longrightarrow> onPointerDown ctx st pointerId step = toggleLatched ctx st step
                  \<and> onPointerUp ctx st pointerId = st)
   \<and> (map_of (latchedVoices st) step = None \<longrightarrow>
        nextVoice (toggleLatched ctx st step) = nextVoice st + 1
        \<and> map_of (latchedVoices (toggleLatched ctx st step)) step = Some (nextVoice st)
        \<and> map_of (voices (toggleLatched ctx st step)) (nextVoice st)
            = Some (newVoice ctx (waveform st) (freqForStepFromBase step (baseFreq st))
                     (gain st) (attack st))
        \<and> map_of (latchedVoices (toggleLatched ctx' (toggleLatched ctx st step) step)) step = None
        \<and> nextVoice (toggleLatched ctx' (toggleLatched ctx st step) step) = nextVoice st + 1
        \<and> map_of (voices (toggleLatched ctx' (toggleLatched ctx st step) step)) (nextVoice st)
            = Some (stop ctx' (release st) (Some (DecGlow step))
                     (newVoice ctx (waveform st) (freqForStepFromBase step (baseFreq st))
                        (gain st) (attack st)))
        \<and> stopped (stop ctx' (release st) (Some (DecGlow step))
                     (newVoice ctx (waveform st) (freqForStepFromBase step (baseFreq st))
                        (gain st) (attack st)))
        \<and> length (filter isOscStop (calls (stop ctx' (release st) (Some (DecGlow step))
                     (newVoice ctx (waveform st) (freqForStepFromBase step (baseFreq st))
                        (gain st) (attack st))))) = 1
        \<and> last (calls (stop ctx' (release st) (Some (DecGlow step))
                     (newVoice ctx (waveform st) (freqForStepFromBase step (baseFreq st))
                        (gain st) (attack st))))
            = OscStop (currentTime ctx' + max (3 / 100) (release st) + 1 / 100))
   \<and> (\<forall>v. map_of (latchedVoices st) step = Some v \<longrightarrow>
        nextVoice (toggleLatched ctx st step) = nextVoice st
        \<and> map_of (latchedVoices (toggleLatched ctx st step)) step = None
        \<and> voices (toggleLatched ctx st step)
            = AList.map_entry v (stop ctx (release st) (Some (DecGlow step))) (voices st)
        \<and> (\<forall>x. map_of (voices st) v = Some x \<longrightarrow>
              map_of (voices (toggleLatched ctx st step)) v
                = Some (stop ctx (release st) (Some (DecGlow step)) x)
              \<and> stopped (stop ctx (release st) (Some (DecGlow step)) x)
              \<and> (\<not> stopped x \<longrightarrow>
                    last (calls (stop ctx (release st) (Some (DecGlow step)) x))
                      = OscStop (currentTime ctx + max (3 / 100) (release st) + 1 / 100)
                    \<and> length (filter isOscStop
                                (calls (stop ctx (release st) (Some (DecGlow step)) x)))
                        = length (filter isOscStop (calls x)) + 1)))
   \<and> (distinct (map fst (latchedVoices st))
        \<longrightarrow> distinct (map fst (latchedVoices (toggleLatched ctx st step))))
   \<and> (sustain st0 \<longrightarrow> onPointerDown_p0 ctx st0 pointerId step = toggleLatched_p0 ctx st0 step
                   \<and> onPointerUp_p0 ctx st0 pointerId = st0)
   \<and> (map_of (latchedVoices st0) step = None \<longrightarrow>
        nextVoice (toggleLatched_p0 ctx st0 step) = nextVoice st0 + 1
        \<and> map_of (latchedVoices (toggleLatched_p0 ctx st0 step)) step = Some (nextVoice st0)
        \<and> map_of (voices (toggleLatched_p0 ctx st0 step)) (nextVoice st0)
            = Some (newVoice_p0 ctx (waveform st0) (freqForStepFromBase_p0 step (baseFreq st0))
                     (gain st0) (attack st0))
        \<and> map_of (latchedVoices (toggleLatched_p0 ctx' (toggleLatched_p0 ctx st0 step) step)) step
            = None
        \<and> nextVoice (toggleLatched_p0 ctx' (toggleLatched_p0 ctx st0 step) step) = nextVoice st0 + 1
        \<and> map_of (voices (toggleLatched_p0 ctx' (toggleLatched_p0 ctx st0 step) step)) (nextVoice st0)
            = Some (stop_p0 ctx' (release st0) (Some (DecGlow step))
                     (newVoice_p0 ctx (waveform st0) (freqForStepFromBase_p0 step (baseFreq st0))
                        (gain st0) (attack st0)))
        \<and> length (filter isOscStop (calls (stop_p0 ctx' (release st0) (Some (DecGlow step))
                     (newVoice_p0 ctx (waveform st0) (freqForStepFromBase_p0 step (baseFreq st0))
                        (gain st0) (attack st0))))) = 1
        \<and> OscStop (currentTime ctx' + max (2 / 100) (release st0) + 5 / 1000)
            \<in> set (calls (stop_p0 ctx' (release st0) (Some (DecGlow step))
                     (newVoice_p0 ctx (waveform st0) (freqForStepFromBase_p0 step (baseFreq st0))
                        (gain st0) (attack st0)))))
   \<and> (\<forall>v. map_of (latchedVoices st0) step = Some v \<longrightarrow>
        nextVoice (toggleLatched_p0 ctx st0 step) = nextVoice st0
        \<and> map_of (latchedVoices (toggleLatched_p0 ctx st0 step)) step = None
        \<and> voices (toggleLatched_p0 ctx st0 step)
            = AList.map_entry v (stop_p0 ctx (release st0) (Some (DecGlow step))) (voices st0)
        \<and> (\<forall>x. map_of (voices st0) v = Some x \<longrightarrow>
              map_of (voices (toggleLatched_p0 ctx st0 step)) v
                = Some (stop_p0 ctx (release st0) (Some (DecGlow step)) x)
              \<and> length (filter isOscStop
                          (calls (stop_p0 ctx (release st0) (Some (DecGlow step)) x)))
                  = length (filter isOscStop (calls x)) + 1
              \<and> OscStop (currentTime ctx + max (2 / 100) (release st0) + 5 / 1000)
                  \<in> set (calls (stop_p0 ctx (release st0) (Some (DecGlow step)) x))))
   \<and> (distinct (map fst (latchedVoices st0))
        \<longrightarrow> distinct (map fst (latchedVoices (toggleLatched_p0 ctx st0 step))))"
proof -
  have a: "sustain st \<longrightarrow> onPointerDown ctx st pointerId step = toggleLatched ctx st step
                  \<and> onPointerUp ctx st pointerId = st"
    by (simp add: onPointerDown_def onPointerUp_def)
  have b: "sustain st0 \<longrightarrow> onPointerDown_p0 ctx st0 pointerId step = toggleLatched_p0 ctx st0 step
                   \<and> onPointerUp_p0 ctx st0 pointerId = st0"
    by (simp add: onPointerDown_p0_def onPointerUp_p0_def)
  have c: "map_of (latchedVoices st) step = None \<longrightarrow>
        nextVoice (toggleLatched ctx st step) = nextVoice st + 1
        \<and> map_of (latchedVoices (toggleLatched ctx st step)) step = Some (nextVoice st)
        \<and> map_of (voices (toggleLatched ctx st step)) (nextVoice st)
            = Some (newVoice ctx (waveform st) (freqForStepFromBase step (baseFreq st))
                     (gain st) (attack st))
        \<and> map_of (latchedVoices (toggleLatched ctx' (toggleLatched ctx st step) step)) step = None
        \<and> nextVoice (toggleLatched ctx' (toggleLatched ctx st step) step) = nextVoice st + 1
        \<and> map_of (voices (toggleLatched ctx' (toggleLatched ctx st step) step)) (nextVoice st)
            = Some (stop ctx' (release st) (Some (DecGlow step))
                     (newVoice ctx (waveform st) (freqForStepFromBase step (baseFreq st))
                        (gain st) (attack st)))"
    using toggleLatched_start [of st step ctx] toggleLatched_twice [of st step ctx' ctx]
    by blast
  have d: "\<forall>v. map_of (latchedVoices st) step = Some v \<longrightarrow>
        nextVoice (toggleLatched ctx st step) = nextVoice st
        \<and> map_of (latchedVoices (toggleLatched ctx st step)) step = None
        \<and> voices (toggleLatched ctx st step)
            = AList.map_entry v (stop ctx (release st) (Some (DecGlow step))) (voices st)
        \<and> (\<forall>x. map_of (voices st) v = Some x \<longrightarrow>
              map_of (voices (toggleLatched ctx st step)) v
                = Some (stop ctx (release st) (Some (DecGlow step)) x))"
    using toggleLatched_stop [of st step _ ctx] toggleLatched_stop_voice [of st step _ _ ctx]
    by blast
  have e: "map_of (latchedVoices st0) step = None \<longrightarrow>
        nextVoice (toggleLatched_p0 ctx st0 step) = nextVoice st0 + 1
        \<and> map_of (latchedVoices (toggleLatched_p0 ctx st0 step)) step = Some (nextVoice st0)
        \<and> map_of (voices (toggleLatched_p0 ctx st0 step)) (nextVoice st0)
            = Some (newVoice_p0 ctx (waveform st0) (freqForStepFromBase_p0 step (baseFreq st0))
                     (gain st0) (attack st0))
        \<and> map_of (latchedVoices (toggleLatched_p0 ctx' (toggleLatched_p0 ctx st0 step) step)) step
            = None
        \<and> nextVoice (toggleLatched_p0 ctx' (toggleLatched_p0 ctx st0 step) step) = nextVoice st0 + 1
        \<and> map_of (voices (toggleLatched_p0 ctx' (toggleLatched_p0 ctx st0 step) step)) (nextVoice st0)
            = Some (stop_p0 ctx' (release st0) (Some (DecGlow step))
                     (newVoice_p0 ctx (waveform st0) (freqForStepFromBase_p0 step (baseFreq st0))
                        (gain st0) (attack st0)))"
    using toggleLatched_p0_start [of st0 step ctx] toggleLatched_p0_twice [of st0 step ctx' ctx]
    by blast
  have f: "\<forall>v. map_of (latchedVoices st0) step = Some v \<longrightarrow>
        nextVoice (toggleLatched_p0 ctx st0 step) = nextVoice st0
        \<and> map_of (latchedVoices (toggleLatched_p0 ctx st0 step)) step = None
        \<and> voices (toggleLatched_p0 ctx st0 step)
            = AList.map_entry v (stop_p0 ctx (release st0) (Some (DecGlow step))) (voices st0)
        \<and> (\<forall>x. map_of (voices st0) v = Some x \<longrightarrow>
              map_of (voices (toggleLatched_p0 ctx st0 step)) v
                = Some (stop_p0 ctx (release st0) (Some (DecGlow step)) x))"
    using toggleLatched_p0_stop [of st0 step _ ctx]
      toggleLatched_p0_stop_voice [of st0 step _ _ ctx]
    by blast
  note g = toggleLatched_distinct [of st ctx step] toggleLatched_p0_distinct [of st0 ctx step]
  show ?thesis
    using a b c d e f g stop_stops stop_p0_stops stop_newVoice stop_p0_newVoice_p0
    by (simp only: simp_thms) blast
qed


theorem latch_alternation_witness:
  "onPointerDown env0 sustainOn 1 20 = toggleLatched env0 sustainOn 20
   \<and> onPointerUp env0 sustainOn 1 = sustainOn
   \<and> map_of (latchedVoices (toggleLatched env0 sustainOn 20)) 20 = Some 0
   \<and> nextVoice (toggleLatched env0 sustainOn 20) = 1
   \<and> map_of (latchedVoices (toggleLatched env0 (toggleLatched env0 sustainOn 20) 20)) 20 = None
   \<and> nextVoice (toggleLatched env0 (toggleLatched env0 sustainOn 20) 20) = 1
   \<and> map_option stopped
        (map_of (voices (toggleLatched env0 (toggleLatched env0 sustainOn 20) 20)) 0) = Some True
   \<and> map_option (\<lambda>x. length (filter isOscStop (calls x)))
        (map_of (voices (toggleLatched env0 (toggleLatched env0 sustainOn 20) 20)) 0) = Some 1
   \<and> map_option (\<lambda>x. last (calls x))
        (map_of (voices (toggleLatched env0 (toggleLatched env0 sustainOn 20) 20)) 0)
       = Some (OscStop (46 / 100))
   \<and> voices (toggleLatched env0 (toggleLatched env0 sustainOn 20) 20)
       = AList.map_entry 0 (stop env0 (45 / 100) (Some (DecGlow 20)))
           (voices (toggleLatched env0 sustainOn 20))
   \<and> distinct (map fst (latchedVoices (toggleLatched env0 sustainOn 20)))
   \<and> onPointerDown_p0 env0 sustainOn_p0 1 20 = toggleLatched_p0 env0 sustainOn_p0 20
   \<and> onPointerUp_p0 env0 sustainOn_p0 1 = sustainOn_p0
   \<and> map_of (latchedVoices (toggleLatched_p0 env0 sustainOn_p0 20)) 20 = Some 0
   \<and> nextVoice (toggleLatched_p0 env0 sustainOn_p0 20) = 1
   \<and> map_of (latchedVoices (toggleLatched_p0 env0 (toggleLatched_p0 env0 sustainOn_p0 20) 20)) 20 = None
   \<and> nextVoice (toggleLatched_p0 env0 (toggleLatched_p0 env0 sustainOn_p0 20) 20) = 1
   \<and> map_option (\<lambda>x. length (filter isOscStop (calls x)))
        (map_of (voices (toggleLatched_p0 env0 (toggleLatched_p0 env0 sustainOn_p0 20) 20)) 0)
       = Some 1
   \<and> voices (toggleLatched_p0 env0 (toggleLatched_p0 env0 sustainOn_p0 20) 20)
       = AList.map_entry 0 (stop_p0 env0 (12 / 100) (Some (DecGlow 20)))
           (voices (toggleLatched_p0 env0 sustainOn_p0 20))
   \<and> map_option (\<lambda>x. OscStop (125 / 1000) \<in> set (calls x))
        (map_of (voices (toggleLatched_p0 env0 (toggleLatched_p0 env0 sustainOn_p0 20) 20)) 0)
       = Some True
   \<and> distinct (map fst (latchedVoices (toggleLatched_p0 env0 sustainOn_p0 20)))"
proof -
  have h: "sustain sustainOn" "map_of (latchedVoices sustainOn) 20 = None"
    "nextVoice sustainOn = 0" "distinct (map fst (latchedVoices sustainOn))"
    by (simp_all add: sustainOn_def initialState_def)
  have h0: "sustain sustainOn_p0" "map_of (latchedVoices sustainOn_p0) 20 = None"
    "nextVoice sustainOn_p0 = 0" "distinct (map fst (latchedVoices sustainOn_p0))"
    by (simp_all add: sustainOn_p0_def initialState_p0_def)
  have c: "currentTime env0 = 0"
    by (simp add: env0_def)
  note a = latch_alternation [of sustainOn env0 1 20 env0 sustainOn_p0]
  from a h h0 have l: "map_of (latchedVoices (toggleLatched env0 sustainOn 20)) 20 = Some 0"
    "map_of (latchedVoices (toggleLatched_p0 env0 sustainOn_p0 20)) 20 = Some 0"
    "nextVoice (toggleLatched env0 sustainOn 20) = 1"
    "nextVoice (toggleLatched_p0 env0 sustainOn_p0 20) = 1"
    by simp_all
  have r: "release sustainOn = 45 / 100" "release sustainOn_p0 = 12 / 100"
    "release (toggleLatched env0 sustainOn 20) = 45 / 100"
    "release (toggleLatched_p0 env0 sustainOn_p0 20) = 12 / 100"
    by (simp_all add: sustainOn_def sustainOn_p0_def initialState_def initialState_p0_def
          toggleLatched_def toggleLatched_p0_def incGlow_def incGlow_p0_def tick_def Let_def)
  note b = latch_alternation [of "toggleLatched env0 sustainOn 20" env0 1 20 env0
      "toggleLatched_p0 env0 sustainOn_p0 20"]
  from b l r have m: "voices (toggleLatched env0 (toggleLatched env0 sustainOn 20) 20)
       = AList.map_entry 0 (stop env0 (45 / 100) (Some (DecGlow 20)))
           (voices (toggleLatched env0 sustainOn 20))"
    "voices (toggleLatched_p0 env0 (toggleLatched_p0 env0 sustainOn_p0 20) 20)
       = AList.map_entry 0 (stop_p0 env0 (12 / 100) (Some (DecGlow 20)))
           (voices (toggleLatched_p0 env0 sustainOn_p0 20))"
    by simp_all
  from a h h0 c r have "?thesis = (voices (toggleLatched env0 (toggleLatched env0 sustainOn 20) 20)
       = AList.map_entry 0 (stop env0 (45 / 100) (Some (DecGlow 20)))
           (voices (toggleLatched env0 sustainOn 20))
     \<and> voices (toggleLatched_p0 env0 (toggleLatched_p0 env0 sustainOn_p0 20) 20)
       = AList.map_entry 0 (stop_p0 env0 (12 / 100) (Some (DecGlow 20)))
           (voices (toggleLatched_p0 env0 sustainOn_p0 20)))"
    by simp
  with m show ?thesis by simp
qed

section \<open>Stopping a voice at most once\<close>

subsection \<open>The ownership discipline of the second file\<close>

lemma ownedOnce_alt:
  "ownedOnce st \<longleftrightarrow>
     (distinct (map fst (voices st))
      \<and> distinct (map fst (activeVoices st))
      \<and> distinct (map fst (latchedVoices st))
      \<and> distinct (map fst (activeKeys st))
      \<and> distinct (regRefs st)
      \<and> (\<forall>r\<in>set (regRefs st). r < nextVoice st)
      \<and> voicesOk st)"
proof (cases "distinct (map fst (voices st))")
  case True
  then have "\<And>r v. ((r, v) \<in> set (voices st)) = (map_of (voices st) r = Some v)"
    by simp
  then show ?thesis
    unfolding ownedOnce_def voicesOk_def by auto
next
  case False
  then show ?thesis by (simp add: ownedOnce_def)
qed

lemma set_map_update_subset:
  "set (map f (AList.update k v al)) \<subseteq> insert (f (k, v)) (set (map f al))"
  by (induction al) auto

lemma distinct_map_update:
  "distinct (map f al) \<Longrightarrow> f (k, v) \<notin> set (map f al) \<Longrightarrow> distinct (map f (AList.update k v al))"
proof (induction al)
  case Nil
  then show ?case by simp
next
  case (Cons p ps)
  show ?case
  proof (cases "fst p = k")
    case True
    with Cons.prems show ?thesis by auto
  next
    case False
    have "f p \<notin> set (map f (AList.update k v ps))"
      using set_map_update_subset [of f k v ps] Cons.prems by auto
    with False Cons show ?thesis by auto
  qed
qed

lemma set_map_delete_subset: "set (map f (AList.delete k al)) \<subseteq> set (map f al)"
  by (auto simp: AList.delete_eq)

lemma distinct_map_delete: "distinct (map f al) \<Longrightarrow> distinct (map f (AList.delete k al))"
  by (simp add: AList.delete_eq distinct_map_filter)

lemma deleted_ref_gone:
  assumes "distinct (map f al)" and "map_of al k = Some x"
  shows "f (k, x) \<notin> set (map f (AList.delete k al))"
proof
  assume "f (k, x) \<in> set (map f (AList.delete k al))"
  then obtain e where e: "e \<in> set al" "fst e \<noteq> k" "f e = f (k, x)"
    by (auto simp: AList.delete_eq)
  have "(k, x) \<in> set al" using assms(2) by (rule map_of_SomeD)
  moreover have "inj_on f (set al)" using assms(1) by (simp add: distinct_map)
  ultimately have "e = (k, x)" using e by (auto dest: inj_onD)
  with e show False by simp
qed

lemma map_update_same_voice:
  "map_of al k = Some (r, p) \<Longrightarrow>
   map (\<lambda>(key, voice, step). voice) (AList.update k (r, q) al) = map (\<lambda>(key, voice, step). voice) al"
  by (induction al) (auto split: if_splits)

lemma distinct_append3_third:
  "distinct (A @ L @ K) \<Longrightarrow> distinct K' \<Longrightarrow> set K' \<subseteq> insert v (set K)
   \<Longrightarrow> v \<notin> set (A @ L @ K) \<Longrightarrow> distinct (A @ L @ K')"
  by auto

lemma distinct_append3_second:
  "distinct (A @ L @ K) \<Longrightarrow> distinct L' \<Longrightarrow> set L' \<subseteq> insert v (set L)
   \<Longrightarrow> v \<notin> set (A @ L @ K) \<Longrightarrow> distinct (A @ L' @ K)"
  by auto

lemma distinct_append3_first:
  "distinct (A @ L @ K) \<Longrightarrow> distinct A' \<Longrightarrow> set A' \<subseteq> insert v (set A)
   \<Longrightarrow> v \<notin> set (A @ L @ K) \<Longrightarrow> distinct (A' @ L @ K)"
  by auto

lemma stopCount_newVoice_p0 [simp]:
  "stopCount (newVoice_p0 ctx w f g a) = 0" "endedCount (newVoice_p0 ctx w f g a) = 0"
  by (simp_all add: stopCount_def endedCount_def newVoice_p0_def Let_def)

lemma stopCount_stop_p0 [simp]:
  "stopCount (stop_p0 ctx r cb v) = stopCount v + 1" "endedCount (stop_p0 ctx r cb v) = endedCount v + 1"
  by (simp_all add: stopCount_def endedCount_def stop_p0_def Let_def)

lemma stopCount_setters_p0 [simp]:
  "stopCount (setFrequency_p0 f v) = stopCount v" "endedCount (setFrequency_p0 f v) = endedCount v"
  "stopCount (setGain_p0 ctx g v) = stopCount v" "endedCount (setGain_p0 ctx g v) = endedCount v"
  "stopCount (setWaveform_p0 w v) = stopCount v" "endedCount (setWaveform_p0 w v) = endedCount v"
  by (simp_all add: stopCount_def endedCount_def setFrequency_p0_def setGain_p0_def
        setWaveform_p0_def Let_def)

lemma startVoice_p0_fields:
  "fst (startVoice_p0 ctx st step) = nextVoice st"
  "nextVoice (snd (startVoice_p0 ctx st step)) = nextVoice st + 1"
  "voices (snd (startVoice_p0 ctx st step))
     = AList.update (nextVoice st)
         (newVoice_p0 ctx (waveform st) (freqForStepFromBase_p0 step (baseFreq st)) (gain st) (attack st))
         (voices st)"
  "activeVoices (snd (startVoice_p0 ctx st step)) = activeVoices st"
  "latchedVoices (snd (startVoice_p0 ctx st step)) = latchedVoices st"
  "activeKeys (snd (startVoice_p0 ctx st step)) = activeKeys st"
  "activePointers (snd (startVoice_p0 ctx st step)) = activePointers st"
  by (simp_all add: startVoice_p0_def Let_def incGlow_p0_def tick_def)

lemma voicesOk_fresh:
  assumes ok: "voicesOk st" and b: "\<forall>r\<in>set (regRefs st). r < nextVoice st"
    and v: "voices st' = AList.update (nextVoice st) nv (voices st)"
    and n: "nextVoice st' = nextVoice st + 1"
    and nv: "stopCount nv = 0" "endedCount nv = 0"
    and r: "set (regRefs st') \<subseteq> insert (nextVoice st) (set (regRefs st))"
  shows "voicesOk st'"
  unfolding voicesOk_def
proof (intro allI impI)
  fix r x assume m: "map_of (voices st') r = Some x"
  show "r < nextVoice st' \<and> stopCount x \<le> 1 \<and> endedCount x = stopCount x
        \<and> (r \<in> set (regRefs st') \<longrightarrow> stopCount x = 0)"
  proof (cases "r = nextVoice st")
    case True
    with m v have "x = nv" by (simp add: update_conv')
    with True n nv show ?thesis by simp
  next
    case False
    with m v have o: "map_of (voices st) r = Some x" by (simp add: update_conv')
    with ok have p: "r < nextVoice st" "stopCount x \<le> 1" "endedCount x = stopCount x"
      "r \<in> set (regRefs st) \<longrightarrow> stopCount x = 0"
      unfolding voicesOk_def by blast+
    from r False have "r \<in> set (regRefs st') \<longrightarrow> r \<in> set (regRefs st)" by auto
    with p n show ?thesis by simp
  qed
qed

text \<open>A state that differs from an invariant state by one fresh voice in one registry.\<close>

lemma ownedOnce_fresh:
  assumes inv: "ownedOnce st"
    and v: "voices st' = AList.update (nextVoice st) nv (voices st)"
    and n: "nextVoice st' = nextVoice st + 1"
    and nv: "stopCount nv = 0" "endedCount nv = 0"
    and keys: "distinct (map fst (activeVoices st'))" "distinct (map fst (latchedVoices st'))"
      "distinct (map fst (activeKeys st'))"
    and d: "distinct (regRefs st')"
    and r: "set (regRefs st') \<subseteq> insert (nextVoice st) (set (regRefs st))"
  shows "ownedOnce st'"
proof -
  from inv have a: "distinct (map fst (voices st))"
    "\<forall>r\<in>set (regRefs st). r < nextVoice st" "voicesOk st"
    by (simp_all add: ownedOnce_alt)
  have "voicesOk st'"
    by (rule voicesOk_fresh [OF a(3) a(2) v n nv r])
  moreover have "distinct (map fst (voices st'))"
    unfolding v using a(1) by (rule distinct_update)
  moreover have "\<forall>r\<in>set (regRefs st'). r < nextVoice st'"
    using r a(2) n by (auto simp: subset_iff less_Suc_eq)
  ultimately show ?thesis
    unfolding ownedOnce_alt using keys d by simp
qed

lemma ownedOnce_startForKey_p0:
  assumes "ownedOnce st"
  shows "ownedOnce (startForKey_p0 ctx st key step)"
proof -
  let ?s = "snd (startVoice_p0 ctx st step)"
  let ?st' = "startForKey_p0 ctx st key step"
  note f = startVoice_p0_fields [of ctx st step]
  have e: "?st' = ?s\<lparr>activeKeys := AList.update key (nextVoice st, step) (activeKeys ?s)\<rparr>"
    using f(1) by (simp add: startForKey_p0_def split_beta Let_def)
  from assms have a: "distinct (map fst (activeVoices st))"
    "distinct (map fst (latchedVoices st))" "distinct (map fst (activeKeys st))"
    "distinct (regRefs st)" "\<forall>r\<in>set (regRefs st). r < nextVoice st"
    by (simp_all add: ownedOnce_alt)
  have fresh: "nextVoice st \<notin> set (regRefs st)" using a(5) by auto
  have p: "pointerRefs ?st' = pointerRefs st" "latchRefs ?st' = latchRefs st"
    by (simp_all add: e f pointerRefs_def latchRefs_def)
  have k: "set (keyRefs ?st') \<subseteq> insert (nextVoice st) (set (keyRefs st))"
    unfolding keyRefs_def e
    using set_map_update_subset [of "\<lambda>(key, voice, step). voice" key "(nextVoice st, step)" "activeKeys st"]
    by (simp add: f)
  have kd: "distinct (keyRefs ?st')"
    unfolding keyRefs_def e
    using distinct_map_update [of "\<lambda>(key, voice, step). voice" "activeKeys st" key "(nextVoice st, step)"]
      a(4) fresh
    by (simp add: f regRefs_def keyRefs_def)
  have d: "distinct (regRefs ?st')"
    unfolding regRefs_def p
    by (rule distinct_append3_third [OF a(4) [unfolded regRefs_def] kd k fresh [unfolded regRefs_def]])
  have sub: "set (regRefs ?st') \<subseteq> insert (nextVoice st) (set (regRefs st))"
    unfolding regRefs_def p using k by auto
  show ?thesis
  proof (rule ownedOnce_fresh [OF assms _ _ _ _ _ _ _ d sub])
    show "voices ?st' = AList.update (nextVoice st)
         (newVoice_p0 ctx (waveform st) (freqForStepFromBase_p0 step (baseFreq st)) (gain st) (attack st))
         (voices st)"
      by (simp add: e f)
  qed (simp_all add: e f a distinct_update)
qed

lemma sameOwnership_refl: "sameOwnership st st"
  by (simp add: sameOwnership_def)

lemma sameOwnership_trans:
  "sameOwnership a b \<Longrightarrow> sameOwnership b c \<Longrightarrow> sameOwnership a c"
  by (simp add: sameOwnership_def)

lemma ownedOnce_same:
  assumes inv: "ownedOnce st" and s: "sameOwnership st st'"
  shows "ownedOnce st'"
proof -
  from inv have a: "distinct (map fst (voices st))" "distinct (map fst (activeVoices st))"
    "distinct (map fst (latchedVoices st))" "distinct (map fst (activeKeys st))"
    "distinct (regRefs st)" "\<forall>r\<in>set (regRefs st). r < nextVoice st" "voicesOk st"
    by (simp_all add: ownedOnce_alt)
  from s have r: "regRefs st' = regRefs st" "nextVoice st' = nextVoice st"
    by (simp_all add: sameOwnership_def regRefs_def)
  have "voicesOk st'"
    unfolding voicesOk_def
  proof (intro allI impI)
    fix q x assume m: "map_of (voices st') q = Some x"
    from s have c: "map_option stopCount (map_of (voices st') q)
                 = map_option stopCount (map_of (voices st) q)"
      "map_option endedCount (map_of (voices st') q)
                 = map_option endedCount (map_of (voices st) q)"
      by (simp_all add: sameOwnership_def)
    from c(1) m obtain y where y: "map_of (voices st) q = Some y" "stopCount y = stopCount x"
      by (cases "map_of (voices st) q") auto
    with c(2) m have e: "endedCount y = endedCount x" by simp
    from a(7) y(1) have "q < nextVoice st \<and> stopCount y \<le> 1 \<and> endedCount y = stopCount y
        \<and> (q \<in> set (regRefs st) \<longrightarrow> stopCount y = 0)"
      unfolding voicesOk_def by blast
    with y e r show "q < nextVoice st' \<and> stopCount x \<le> 1 \<and> endedCount x = stopCount x
        \<and> (q \<in> set (regRefs st') \<longrightarrow> stopCount x = 0)"
      by simp
  qed
  with a r s show ?thesis
    unfolding ownedOnce_alt by (simp add: sameOwnership_def)
qed

lemma sameOwnership_touch:
  assumes "\<And>x. stopCount (g x) = stopCount x" "\<And>x. endedCount (g x) = endedCount x"
    and "nextVoice st' = nextVoice st"
    and "voices st' = AList.map_entry r g (voices st)"
    and "activeVoices st' = activeVoices st" "latchedVoices st' = latchedVoices st"
    and "activeKeys st' = activeKeys st"
  shows "sameOwnership st st'"
  using assms
  by (auto simp: sameOwnership_def map_fst_map_entry map_of_map_entry pointerRefs_def
        latchRefs_def keyRefs_def split: option.splits)

lemma sameOwnership_untouched:
  assumes "nextVoice st' = nextVoice st" "voices st' = voices st"
    and "activeVoices st' = activeVoices st" "latchedVoices st' = latchedVoices st"
    and "activeKeys st' = activeKeys st"
  shows "sameOwnership st st'"
  using assms
  by (simp add: sameOwnership_def pointerRefs_def latchRefs_def keyRefs_def)

lemma sameOwnership_fold:
  assumes "\<And>e s. sameOwnership s (h e s)"
  shows "sameOwnership st (fold h es st)"
proof (induction es arbitrary: st)
  case Nil
  show ?case by (simp add: sameOwnership_refl)
next
  case (Cons e es)
  have "sameOwnership st (h e st)" by (rule assms)
  moreover have "sameOwnership (h e st) (fold h es (h e st))" by (rule Cons.IH)
  ultimately show ?case by (simp add: sameOwnership_trans)
qed

lemma sameOwnership_baseFreqEffect_p0: "sameOwnership st (baseFreqEffect_p0 st)"
  unfolding baseFreqEffect_p0_def
proof (rule sameOwnership_fold)
  fix e :: "int \<times> nat \<times> int" and s :: state_p0
  obtain p v q where e: "e = (p, v, q)" by (cases e)
  show "sameOwnership s
     ((\<lambda>(pointerId, voice, step) s.
          let f = freqForStepFromBase_p0 step (baseFreq st) in
          s\<lparr>voices := AList.map_entry voice (setFrequency_p0 f) (voices s),
            activeHz := Some f, activeStep := Some step\<rparr>) e s)"
    unfolding e
    by (rule sameOwnership_touch
          [where g = "setFrequency_p0 (freqForStepFromBase_p0 q (baseFreq st))" and r = v])
       (simp_all add: Let_def)
qed

lemma sameOwnership_setTranspose12_p0: "sameOwnership st (setTranspose12_p0 st v)"
proof (cases "v = transpose12 st")
  case True
  then show ?thesis by (simp add: setTranspose12_p0_def sameOwnership_refl)
next
  case False
  have "sameOwnership st (st\<lparr>transpose12 := v\<rparr>)"
    by (rule sameOwnership_untouched) simp_all
  moreover have "sameOwnership (st\<lparr>transpose12 := v\<rparr>) (baseFreqEffect_p0 (st\<lparr>transpose12 := v\<rparr>))"
    by (rule sameOwnership_baseFreqEffect_p0)
  ultimately show ?thesis
    using False by (simp add: setTranspose12_p0_def sameOwnership_trans)
qed

lemma sameOwnership_gainEffect_p0: "sameOwnership st (gainEffect_p0 ctx gains st)"
  unfolding gainEffect_p0_def
proof (rule sameOwnership_fold)
  fix e :: nat and s :: state_p0
  show "sameOwnership s
     (s\<lparr>voices := AList.map_entry e
                      (setGain_p0 (ctx\<lparr>gainValue := gains e\<rparr>) (gain st)) (voices s)\<rparr>)"
    by (rule sameOwnership_touch
          [where g = "setGain_p0 (ctx\<lparr>gainValue := gains e\<rparr>) (gain st)" and r = e])
       simp_all
qed

lemma sameOwnership_waveformEffect_p0: "sameOwnership st (waveformEffect_p0 st)"
  unfolding waveformEffect_p0_def
proof (rule sameOwnership_fold)
  fix e :: nat and s :: state_p0
  show "sameOwnership s
     (s\<lparr>voices := AList.map_entry e (setWaveform_p0 (waveform st)) (voices s)\<rparr>)"
    by (rule sameOwnership_touch [where g = "setWaveform_p0 (waveform st)" and r = e])
       simp_all
qed

lemma sameOwnership_retuneForPointer_p0:
  "sameOwnership st (retuneForPointer_p0 ctx st pointerId step)"
proof (cases "map_of (activeVoices st) pointerId")
  case None
  then show ?thesis by (simp add: retuneForPointer_p0_def sameOwnership_refl)
next
  case (Some e)
  obtain voice prev where e: "e = (voice, prev)" by (cases e)
  have k: "pointerId \<in> fst ` set (activeVoices st)"
    using Some by (force dest: map_of_SomeD)
  show ?thesis
    using Some e k map_update_same_voice [of "activeVoices st" pointerId voice prev step]
    by (auto simp: sameOwnership_def retuneForPointer_p0_def Let_def incGlow_p0_def tick_def
          map_fst_map_entry map_of_map_entry pointerRefs_def latchRefs_def keyRefs_def
          update_keys split: option.splits)
qed

lemma sameOwnership_glow:
  "sameOwnership st (decGlow_p0 st step)" "sameOwnership st (fadeTimeout_p0 st step)"
  "sameOwnership st (maybeBeginFade_p0 ctx st step)" "sameOwnership st (incGlow_p0 st step)"
  by (rule sameOwnership_untouched;
      simp add: decGlow_p0_def fadeTimeout_p0_def maybeBeginFade_p0_def incGlow_p0_def Let_def
        tick_def)+

lemma ownedOnce_parts:
  assumes "ownedOnce st"
  shows "distinct (map fst (voices st))" "distinct (map fst (activeVoices st))"
    "distinct (map fst (latchedVoices st))" "distinct (map fst (activeKeys st))"
    "distinct (regRefs st)" "\<forall>r\<in>set (regRefs st). r < nextVoice st" "voicesOk st"
  using assms by (simp_all add: ownedOnce_alt)

lemma ownedOnce_startForPointer_p0:
  assumes "ownedOnce st"
  shows "ownedOnce (startForPointer_p0 ctx st pointerId step)"
proof -
  let ?s = "snd (startVoice_p0 ctx st step)"
  let ?st' = "startForPointer_p0 ctx st pointerId step"
  note f = startVoice_p0_fields [of ctx st step]
  have e: "?st' = ?s\<lparr>activePointers := AList.update pointerId step (activePointers ?s),
                     activeVoices := AList.update pointerId (nextVoice st, step) (activeVoices ?s)\<rparr>"
    using f(1) by (simp add: startForPointer_p0_def split_beta Let_def)
  note a = ownedOnce_parts [OF assms]
  have fresh: "nextVoice st \<notin> set (regRefs st)" using a(6) by auto
  have p: "keyRefs ?st' = keyRefs st" "latchRefs ?st' = latchRefs st"
    by (simp_all add: e f keyRefs_def latchRefs_def)
  have k: "set (pointerRefs ?st') \<subseteq> insert (nextVoice st) (set (pointerRefs st))"
    unfolding pointerRefs_def e
    using set_map_update_subset [of "\<lambda>(key, voice, step). voice" pointerId "(nextVoice st, step)" "activeVoices st"]
    by (simp add: f)
  have kd: "distinct (pointerRefs ?st')"
    unfolding pointerRefs_def e
    using distinct_map_update [of "\<lambda>(key, voice, step). voice" "activeVoices st" pointerId "(nextVoice st, step)"]
      a(5) fresh
    by (simp add: f regRefs_def pointerRefs_def)
  have d: "distinct (regRefs ?st')"
    unfolding regRefs_def p
    by (rule distinct_append3_first [OF a(5) [unfolded regRefs_def] kd k fresh [unfolded regRefs_def]])
  have sub: "set (regRefs ?st') \<subseteq> insert (nextVoice st) (set (regRefs st))"
    unfolding regRefs_def p using k by auto
  show ?thesis
  proof (rule ownedOnce_fresh [OF assms _ _ _ _ _ _ _ d sub])
    show "voices ?st' = AList.update (nextVoice st)
         (newVoice_p0 ctx (waveform st) (freqForStepFromBase_p0 step (baseFreq st)) (gain st) (attack st))
         (voices st)"
      by (simp add: e f)
  qed (simp_all add: e f a distinct_update)
qed

lemma voicesOk_stopped:
  assumes ok: "voicesOk st"
    and v: "voices st' = AList.map_entry r (stop_p0 ctx rel cb) (voices st)"
    and n: "nextVoice st' = nextVoice st"
    and rin: "r \<in> set (regRefs st)"
    and sub: "set (regRefs st') \<subseteq> set (regRefs st) - {r}"
  shows "voicesOk st'"
  unfolding voicesOk_def
proof (intro allI impI)
  fix q x assume m: "map_of (voices st') q = Some x"
  show "q < nextVoice st' \<and> stopCount x \<le> 1 \<and> endedCount x = stopCount x
        \<and> (q \<in> set (regRefs st') \<longrightarrow> stopCount x = 0)"
  proof (cases "q = r")
    case True
    with m v obtain y where y: "map_of (voices st) r = Some y" "x = stop_p0 ctx rel cb y"
      by (auto simp: map_of_map_entry split: option.splits)
    with ok rin have "r < nextVoice st" "stopCount y = 0" "endedCount y = stopCount y"
      unfolding voicesOk_def by blast+
    with y True n sub show ?thesis by auto
  next
    case False
    with m v have "map_of (voices st) q = Some x" by (simp add: map_of_map_entry)
    with ok have "q < nextVoice st" "stopCount x \<le> 1" "endedCount x = stopCount x"
      "q \<in> set (regRefs st) \<longrightarrow> stopCount x = 0"
      unfolding voicesOk_def by blast+
    with n sub show ?thesis by auto
  qed
qed

lemma ownedOnce_stopped:
  assumes inv: "ownedOnce st"
    and v: "voices st' = AList.map_entry r (stop_p0 ctx rel cb) (voices st)"
    and n: "nextVoice st' = nextVoice st"
    and keys: "distinct (map fst (activeVoices st'))" "distinct (map fst (latchedVoices st'))"
      "distinct (map fst (activeKeys st'))"
    and d: "distinct (regRefs st')"
    and rin: "r \<in> set (regRefs st)"
    and sub: "set (regRefs st') \<subseteq> set (regRefs st) - {r}"
  shows "ownedOnce st'"
proof -
  note a = ownedOnce_parts [OF inv]
  have "voicesOk st'" by (rule voicesOk_stopped [OF a(7) v n rin sub])
  moreover have "distinct (map fst (voices st'))"
    unfolding v using a(1) by (simp add: map_fst_map_entry)
  moreover have "\<forall>q\<in>set (regRefs st'). q < nextVoice st'"
    using sub a(6) n by (auto simp: subset_iff)
  ultimately show ?thesis
    unfolding ownedOnce_alt using keys d by simp
qed

lemma distinct_append3_drop_third:
  "distinct (A @ L @ K) \<Longrightarrow> distinct K' \<Longrightarrow> set K' \<subseteq> set K - {r} \<Longrightarrow> r \<in> set K
   \<Longrightarrow> distinct (A @ L @ K') \<and> set (A @ L @ K') \<subseteq> set (A @ L @ K) - {r}"
  by auto

lemma distinct_append3_drop_second:
  "distinct (A @ L @ K) \<Longrightarrow> distinct L' \<Longrightarrow> set L' \<subseteq> set L - {r} \<Longrightarrow> r \<in> set L
   \<Longrightarrow> distinct (A @ L' @ K) \<and> set (A @ L' @ K) \<subseteq> set (A @ L @ K) - {r}"
  by auto

lemma distinct_append3_drop_first:
  "distinct (A @ L @ K) \<Longrightarrow> distinct A' \<Longrightarrow> set A' \<subseteq> set A - {r} \<Longrightarrow> r \<in> set A
   \<Longrightarrow> distinct (A' @ L @ K) \<and> set (A' @ L @ K) \<subseteq> set (A @ L @ K) - {r}"
  by auto

lemma delete_refs:
  assumes "distinct (map (\<lambda>(key, voice, step). voice) al)" and "map_of al k = Some (r, p)"
  shows "distinct (map (\<lambda>(key, voice, step). voice) (AList.delete k al))"
    and "set (map (\<lambda>(key, voice, step). voice) (AList.delete k al))
         \<subseteq> set (map (\<lambda>(key, voice, step). voice) al) - {r}"
    and "r \<in> set (map (\<lambda>(key, voice, step). voice) al)"
proof -
  show "distinct (map (\<lambda>(key, voice, step). voice) (AList.delete k al))"
    using assms(1) by (rule distinct_map_delete)
  have "r \<notin> set (map (\<lambda>(key, voice, step). voice) (AList.delete k al))"
    using deleted_ref_gone [OF assms] by simp
  moreover have "set (map (\<lambda>(key, voice, step). voice) (AList.delete k al))
         \<subseteq> set (map (\<lambda>(key, voice, step). voice) al)"
    by (rule set_map_delete_subset)
  ultimately show "set (map (\<lambda>(key, voice, step). voice) (AList.delete k al))
         \<subseteq> set (map (\<lambda>(key, voice, step). voice) al) - {r}"
    by blast
  show "r \<in> set (map (\<lambda>(key, voice, step). voice) al)"
    using assms(2) by (force dest: map_of_SomeD)
qed

lemma delete_refs_snd:
  assumes "distinct (map snd al)" and "map_of al k = Some r"
  shows "distinct (map snd (AList.delete k al))"
    and "set (map snd (AList.delete k al)) \<subseteq> set (map snd al) - {r}"
    and "r \<in> set (map snd al)"
proof -
  show "distinct (map snd (AList.delete k al))"
    using assms(1) by (rule distinct_map_delete)
  have "r \<notin> set (map snd (AList.delete k al))"
    using deleted_ref_gone [OF assms] by simp
  moreover have "set (map snd (AList.delete k al)) \<subseteq> set (map snd al)"
    by (rule set_map_delete_subset)
  ultimately show "set (map snd (AList.delete k al)) \<subseteq> set (map snd al) - {r}"
    by blast
  show "r \<in> set (map snd al)"
    using assms(2) by (force dest: map_of_SomeD)
qed

lemma ownedOnce_stopForKey_p0:
  assumes "ownedOnce st"
  shows "ownedOnce (stopForKey_p0 ctx st key)"
proof (cases "map_of (activeKeys st) key")
  case None
  with assms show ?thesis by (simp add: stopForKey_p0_def)
next
  case (Some e)
  obtain voice step where e: "e = (voice, step)" by (cases e)
  let ?st' = "stopForKey_p0 ctx st key"
  note a = ownedOnce_parts [OF assms]
  have f: "voices ?st' = AList.map_entry voice (stop_p0 ctx (release st) (Some (DecGlow step))) (voices st)"
    "nextVoice ?st' = nextVoice st" "activeVoices ?st' = activeVoices st"
    "latchedVoices ?st' = latchedVoices st" "activeKeys ?st' = AList.delete key (activeKeys st)"
    using Some e by (simp_all add: stopForKey_p0_def Let_def maybeBeginFade_p0_def)
  have dk: "distinct (keyRefs st)" using a(5) by (simp add: regRefs_def)
  note k = delete_refs [OF dk [unfolded keyRefs_def] Some [unfolded e]]
  have p: "pointerRefs ?st' = pointerRefs st" "latchRefs ?st' = latchRefs st"
    "keyRefs ?st' = map (\<lambda>(key, voice, step). voice) (AList.delete key (activeKeys st))"
    by (simp_all add: f pointerRefs_def latchRefs_def keyRefs_def)
  have d: "distinct (regRefs ?st') \<and> set (regRefs ?st') \<subseteq> set (regRefs st) - {voice}"
    unfolding regRefs_def p
    by (rule distinct_append3_drop_third [OF a(5) [unfolded regRefs_def] k(1)])
       (use k in \<open>simp_all add: keyRefs_def\<close>)
  have rin: "voice \<in> set (regRefs st)" using k(3) by (simp add: regRefs_def keyRefs_def)
  show ?thesis
    by (rule ownedOnce_stopped [OF assms f(1) f(2) _ _ _ _ rin])
       (use d a in \<open>simp_all add: f distinct_delete\<close>)
qed

lemma ownedOnce_stopForPointer_p0:
  assumes "ownedOnce st"
  shows "ownedOnce (stopForPointer_p0 ctx st pointerId)"
proof (cases "map_of (activeVoices st) pointerId")
  case None
  with assms show ?thesis by (simp add: stopForPointer_p0_def)
next
  case (Some e)
  obtain voice step where e: "e = (voice, step)" by (cases e)
  let ?st' = "stopForPointer_p0 ctx st pointerId"
  note a = ownedOnce_parts [OF assms]
  have f: "voices ?st' = AList.map_entry voice (stop_p0 ctx (release st) (Some (DecGlow step))) (voices st)"
    "nextVoice ?st' = nextVoice st" "activeVoices ?st' = AList.delete pointerId (activeVoices st)"
    "latchedVoices ?st' = latchedVoices st" "activeKeys ?st' = activeKeys st"
    using Some e by (simp_all add: stopForPointer_p0_def Let_def maybeBeginFade_p0_def)
  have dk: "distinct (pointerRefs st)" using a(5) by (simp add: regRefs_def)
  note k = delete_refs [OF dk [unfolded pointerRefs_def] Some [unfolded e]]
  have p: "keyRefs ?st' = keyRefs st" "latchRefs ?st' = latchRefs st"
    "pointerRefs ?st' = map (\<lambda>(key, voice, step). voice) (AList.delete pointerId (activeVoices st))"
    by (simp_all add: f pointerRefs_def latchRefs_def keyRefs_def)
  have d: "distinct (regRefs ?st') \<and> set (regRefs ?st') \<subseteq> set (regRefs st) - {voice}"
    unfolding regRefs_def p
    by (rule distinct_append3_drop_first [OF a(5) [unfolded regRefs_def] k(1)])
       (use k in \<open>simp_all add: pointerRefs_def\<close>)
  have rin: "voice \<in> set (regRefs st)" using k(3) by (simp add: regRefs_def pointerRefs_def)
  show ?thesis
    by (rule ownedOnce_stopped [OF assms f(1) f(2) _ _ _ _ rin])
       (use d a in \<open>simp_all add: f distinct_delete\<close>)
qed

lemma sameOwnership_ownedOnce_tick: "ownedOnce (tick st) = ownedOnce st"
  by (simp add: ownedOnce_def tick_def regRefs_def pointerRefs_def latchRefs_def keyRefs_def)

lemma ownedOnce_toggleLatched_p0:
  assumes "ownedOnce st"
  shows "ownedOnce (toggleLatched_p0 ctx st step)"
proof (cases "map_of (latchedVoices st) step")
  case None
  let ?nv = "newVoice_p0 ctx (waveform st) (freqForStepFromBase_p0 step (baseFreq st)) (gain st) (attack st)"
  let ?st' = "toggleLatched_p0 ctx st step"
  note a = ownedOnce_parts [OF assms]
  have f: "voices ?st' = AList.update (nextVoice st) ?nv (voices st)"
    "nextVoice ?st' = nextVoice st + 1" "activeVoices ?st' = activeVoices st"
    "latchedVoices ?st' = AList.update step (nextVoice st) (latchedVoices st)"
    "activeKeys ?st' = activeKeys st"
    using None by (simp_all add: toggleLatched_p0_def Let_def incGlow_p0_def tick_def)
  have fresh: "nextVoice st \<notin> set (regRefs st)" using a(6) by auto
  have p: "keyRefs ?st' = keyRefs st" "pointerRefs ?st' = pointerRefs st"
    by (simp_all add: f keyRefs_def pointerRefs_def)
  have k: "set (latchRefs ?st') \<subseteq> insert (nextVoice st) (set (latchRefs st))"
    unfolding latchRefs_def f
    using set_map_update_subset [of snd step "nextVoice st" "latchedVoices st"] by simp
  have kd: "distinct (latchRefs ?st')"
    unfolding latchRefs_def f
    using distinct_map_update [of snd "latchedVoices st" step "nextVoice st"] a(5) fresh
    by (simp add: regRefs_def latchRefs_def)
  have d: "distinct (regRefs ?st')"
    unfolding regRefs_def p
    by (rule distinct_append3_second [OF a(5) [unfolded regRefs_def] kd k fresh [unfolded regRefs_def]])
  have sub: "set (regRefs ?st') \<subseteq> insert (nextVoice st) (set (regRefs st))"
    unfolding regRefs_def p using k by auto
  show ?thesis
    by (rule ownedOnce_fresh [OF assms f(1) f(2) _ _ _ _ _ d sub])
       (simp_all add: f a distinct_update)
next
  case (Some voice)
  let ?st' = "toggleLatched_p0 ctx st step"
  note a = ownedOnce_parts [OF assms]
  have f: "voices ?st' = AList.map_entry voice (stop_p0 ctx (release st) (Some (DecGlow step))) (voices st)"
    "nextVoice ?st' = nextVoice st" "activeVoices ?st' = activeVoices st"
    "latchedVoices ?st' = AList.delete step (latchedVoices st)" "activeKeys ?st' = activeKeys st"
    using Some by (simp_all add: toggleLatched_p0_def Let_def maybeBeginFade_p0_def tick_def)
  have dk: "distinct (latchRefs st)" using a(5) by (simp add: regRefs_def)
  note k = delete_refs_snd [OF dk [unfolded latchRefs_def] Some]
  have p: "keyRefs ?st' = keyRefs st" "pointerRefs ?st' = pointerRefs st"
    "latchRefs ?st' = map snd (AList.delete step (latchedVoices st))"
    by (simp_all add: f pointerRefs_def latchRefs_def keyRefs_def)
  have d: "distinct (regRefs ?st') \<and> set (regRefs ?st') \<subseteq> set (regRefs st) - {voice}"
    unfolding regRefs_def p
    by (rule distinct_append3_drop_second [OF a(5) [unfolded regRefs_def] k(1)])
       (use k in \<open>simp_all add: latchRefs_def\<close>)
  have rin: "voice \<in> set (regRefs st)" using k(3) by (simp add: regRefs_def latchRefs_def)
  show ?thesis
    by (rule ownedOnce_stopped [OF assms f(1) f(2) _ _ _ _ rin])
       (use d a in \<open>simp_all add: f distinct_delete\<close>)
qed

lemma stopEach_p0_Cons:
  "stopEach_p0 ctx gains ((voice, step) # entries) s
   = stopEach_p0 ctx gains entries
       ((maybeBeginFade_p0 ctx s step)
          \<lparr>voices := AList.map_entry voice
                        (stop_p0 (ctx\<lparr>gainValue := gains voice\<rparr>) (release s) (Some (DecGlow step)))
                        (voices s)\<rparr>)"
  by (simp add: stopEach_p0_def Let_def maybeBeginFade_p0_def)

lemma stopEach_p0_Nil: "stopEach_p0 ctx gains [] s = s"
  by (simp add: stopEach_p0_def)

lemma stopEach_p0_effect:
  assumes "distinct (map fst entries)"
  shows "nextVoice (stopEach_p0 ctx gains entries s) = nextVoice s
     \<and> map fst (voices (stopEach_p0 ctx gains entries s)) = map fst (voices s)
     \<and> activeVoices (stopEach_p0 ctx gains entries s) = activeVoices s
     \<and> latchedVoices (stopEach_p0 ctx gains entries s) = latchedVoices s
     \<and> activeKeys (stopEach_p0 ctx gains entries s) = activeKeys s
     \<and> (\<forall>r. map_option stopCount (map_of (voices (stopEach_p0 ctx gains entries s)) r)
              = map_option (\<lambda>v. stopCount v + (if r \<in> fst ` set entries then 1 else 0))
                  (map_of (voices s) r)
            \<and> map_option endedCount (map_of (voices (stopEach_p0 ctx gains entries s)) r)
              = map_option (\<lambda>v. endedCount v + (if r \<in> fst ` set entries then 1 else 0))
                  (map_of (voices s) r))"
  using assms
proof (induction entries arbitrary: s)
  case Nil
  show ?case by (simp add: stopEach_p0_Nil option.map_ident)
next
  case (Cons e entries)
  obtain voice step where e: "e = (voice, step)" by (cases e)
  let ?s1 = "(maybeBeginFade_p0 ctx s step)
          \<lparr>voices := AList.map_entry voice
                        (stop_p0 (ctx\<lparr>gainValue := gains voice\<rparr>) (release s) (Some (DecGlow step)))
                        (voices s)\<rparr>"
  from Cons.prems e have d: "distinct (map fst entries)" and nin: "voice \<notin> fst ` set entries"
    by simp_all
  note ih = Cons.IH [OF d, of ?s1]
  have f: "nextVoice ?s1 = nextVoice s" "map fst (voices ?s1) = map fst (voices s)"
    "activeVoices ?s1 = activeVoices s" "latchedVoices ?s1 = latchedVoices s"
    "activeKeys ?s1 = activeKeys s"
    by (simp_all add: maybeBeginFade_p0_def Let_def map_fst_map_entry)
  have v: "map_of (voices ?s1) r
           = (if r = voice
              then map_option (stop_p0 (ctx\<lparr>gainValue := gains voice\<rparr>) (release s) (Some (DecGlow step)))
                     (map_of (voices s) r)
              else map_of (voices s) r)" for r
    by (simp add: map_of_map_entry split: option.splits)
  have cnt: "map_option stopCount (map_of (voices (stopEach_p0 ctx gains entries ?s1)) r)
              = map_option (\<lambda>v. stopCount v + (if r \<in> fst ` set (e # entries) then 1 else 0))
                  (map_of (voices s) r)
            \<and> map_option endedCount (map_of (voices (stopEach_p0 ctx gains entries ?s1)) r)
              = map_option (\<lambda>v. endedCount v + (if r \<in> fst ` set (e # entries) then 1 else 0))
                  (map_of (voices s) r)" for r
  proof (cases "r = voice")
    case True
    with ih nin show ?thesis
      by (simp add: e map_of_map_entry option.map_comp comp_def split: option.splits)
  next
    case False
    with ih show ?thesis
      by (simp add: e map_of_map_entry)
  qed
  show ?case
    unfolding e stopEach_p0_Cons
    using ih [unfolded f] cnt [unfolded e] by blast
qed

lemma map_fst_map_snd_refs:
  "map fst (map snd (al :: ('k \<times> nat \<times> int) list)) = map (\<lambda>(key, voice, step). voice) al"
  by (induction al) auto

lemma map_fst_snd_refs:
  "map (fst \<circ> snd) (al :: ('k \<times> nat \<times> int) list) = map (\<lambda>(key, voice, step). voice) al"
  by (induction al) auto

lemma map_fst_comp_swap_refs:
  "map (fst \<circ> (\<lambda>(step, voice). (voice, step))) (al :: (int \<times> nat) list) = map snd al"
  by (induction al) auto

lemma map_fst_swap_refs:
  "map fst (map (\<lambda>(step, voice). (voice, step)) (al :: (int \<times> nat) list)) = map snd al"
  by (induction al) auto

lemma count_chain:
  fixes f :: "'a \<Rightarrow> nat"
  assumes "map_option f m3 = map_option (\<lambda>v. f v + c) m2"
      and "map_option f m2 = map_option (\<lambda>v. f v + b) m1"
  shows "map_option f m3 = map_option (\<lambda>v. f v + (b + c)) m1"
  using assms by (cases m1; cases m2; cases m3) auto

lemma ownedOnce_allOff_p0:
  assumes "ownedOnce st"
  shows "ownedOnce (allOff_p0 ctx gains st)"
proof -
  note a = ownedOnce_parts [OF assms]
  let ?A = "map snd (activeVoices st)"
  let ?st1 = "stopEach_p0 ctx gains ?A st"
  let ?st2 = "?st1\<lparr>activeVoices := [], activePointers := []\<rparr>"
  let ?K = "map snd (activeKeys ?st2)"
  let ?st3 = "stopEach_p0 ctx gains ?K ?st2"
  let ?st4 = "?st3\<lparr>activeKeys := []\<rparr>"
  let ?L = "map (\<lambda>(step, voice). (voice, step)) (latchedVoices ?st4)"
  let ?st5 = "stopEach_p0 ctx gains ?L ?st4"
  let ?st6 = "?st5\<lparr>latchedVoices := []\<rparr>"
  let ?fin = "tick (?st6\<lparr>activeHz := None, activeStep := None\<rparr>)"
  have fin: "allOff_p0 ctx gains st = ?fin"
    by (simp add: allOff_p0_def Let_def)
  have dA: "distinct (map fst ?A)"
    using a(5) by (simp add: map_fst_snd_refs regRefs_def pointerRefs_def)
  note e1 = stopEach_p0_effect [OF dA, of ctx gains st]
  have K: "?K = map snd (activeKeys st)" using e1 by simp
  have dK: "distinct (map fst ?K)"
    unfolding K using a(5) by (simp add: map_fst_snd_refs regRefs_def keyRefs_def)
  note e3 = stopEach_p0_effect [OF dK, of ctx gains ?st2]
  have L: "?L = map (\<lambda>(step, voice). (voice, step)) (latchedVoices st)"
    using e1 e3 by simp
  have dL: "distinct (map fst ?L)"
    unfolding L using a(5) by (simp add: map_fst_comp_swap_refs regRefs_def latchRefs_def)
  note e5 = stopEach_p0_effect [OF dL, of ctx gains ?st4]
  have sA: "fst ` set ?A = set (pointerRefs st)"
    using map_fst_map_snd_refs [of "activeVoices st"]
    by (metis pointerRefs_def set_map)
  have sK: "fst ` set ?K = set (keyRefs st)"
    unfolding K using map_fst_map_snd_refs [of "activeKeys st"]
    by (metis keyRefs_def set_map)
  have sL: "fst ` set ?L = set (latchRefs st)"
    unfolding L using map_fst_swap_refs [of "latchedVoices st"]
    by (metis latchRefs_def set_map)
  have n: "nextVoice ?fin = nextVoice st"
    using e1 e3 e5 by (simp add: tick_def)
  have keys: "map fst (voices ?fin) = map fst (voices st)"
    using e1 e3 e5 by (simp add: tick_def)
  have regs: "activeVoices ?fin = []" "latchedVoices ?fin = []" "activeKeys ?fin = []"
    using e3 e5 by (simp_all add: tick_def)
  define ind where "ind q = (if q \<in> set (pointerRefs st) then 1 else 0)
      + (if q \<in> set (keyRefs st) then 1 else 0) + (if q \<in> set (latchRefs st) then 1 else (0::nat))" for q
  have v2: "voices ?st2 = voices ?st1" by simp
  have v4: "voices ?st4 = voices ?st3" by simp
  have v6: "voices ?fin = voices ?st5" by (simp add: tick_def)
  note e1' = e1 [unfolded sA]
  note e3' = e3 [unfolded sK v2]
  note e5' = e5 [unfolded sL v4]
  have cnt: "map_option stopCount (map_of (voices ?fin) q)
       = map_option (\<lambda>v. stopCount v + ind q) (map_of (voices st) q)
     \<and> map_option endedCount (map_of (voices ?fin) q)
       = map_option (\<lambda>v. endedCount v + ind q) (map_of (voices st) q)" for q
  proof -
    from e1' have c1: "map_option stopCount (map_of (voices ?st1) q)
        = map_option (\<lambda>v. stopCount v + (if q \<in> set (pointerRefs st) then 1 else 0)) (map_of (voices st) q)"
      and d1: "map_option endedCount (map_of (voices ?st1) q)
        = map_option (\<lambda>v. endedCount v + (if q \<in> set (pointerRefs st) then 1 else 0)) (map_of (voices st) q)"
      by blast+
    from e3' have c3: "map_option stopCount (map_of (voices ?st3) q)
        = map_option (\<lambda>v. stopCount v + (if q \<in> set (keyRefs st) then 1 else 0)) (map_of (voices ?st1) q)"
      and d3: "map_option endedCount (map_of (voices ?st3) q)
        = map_option (\<lambda>v. endedCount v + (if q \<in> set (keyRefs st) then 1 else 0)) (map_of (voices ?st1) q)"
      by blast+
    from e5' have c5: "map_option stopCount (map_of (voices ?st5) q)
        = map_option (\<lambda>v. stopCount v + (if q \<in> set (latchRefs st) then 1 else 0)) (map_of (voices ?st3) q)"
      and d5: "map_option endedCount (map_of (voices ?st5) q)
        = map_option (\<lambda>v. endedCount v + (if q \<in> set (latchRefs st) then 1 else 0)) (map_of (voices ?st3) q)"
      by blast+
    show ?thesis
      unfolding v6 ind_def
      using count_chain [OF c5 count_chain [OF c3 c1]] count_chain [OF d5 count_chain [OF d3 d1]]
      by blast
  qed
  have ind1: "ind q = (if q \<in> set (regRefs st) then 1 else 0)" for q
    using a(5) by (auto simp: ind_def regRefs_def)
  have "voicesOk ?fin"
    unfolding voicesOk_def
  proof (intro allI impI)
    fix q x assume m: "map_of (voices ?fin) q = Some x"
    from cnt [of q] m obtain y where y: "map_of (voices st) q = Some y"
      "stopCount x = stopCount y + ind q" "endedCount x = endedCount y + ind q"
      by (cases "map_of (voices st) q") auto
    from a(7) y(1) have "q < nextVoice st" "stopCount y \<le> 1" "endedCount y = stopCount y"
      "q \<in> set (regRefs st) \<longrightarrow> stopCount y = 0"
      unfolding voicesOk_def by blast+
    with y n ind1 [of q] regs
    show "q < nextVoice ?fin \<and> stopCount x \<le> 1 \<and> endedCount x = stopCount x
        \<and> (q \<in> set (regRefs ?fin) \<longrightarrow> stopCount x = 0)"
      by (auto simp: regRefs_def pointerRefs_def latchRefs_def keyRefs_def)
  qed
  then show ?thesis
    unfolding fin ownedOnce_alt
    using keys a(1) regs
    by (simp add: regRefs_def pointerRefs_def latchRefs_def keyRefs_def)
qed

lemma ownedOnce_handle_p0:
  assumes "ownedOnce st"
  shows "ownedOnce (handle_p0 st ev)"
proof -
  obtain ctx gains e where ev: "ev = (ctx, gains, e)" by (cases ev)
  show ?thesis
    unfolding ev
  proof (cases e)
    case (SetGain g)
    show "ownedOnce (handle_p0 st (ctx, gains, e))"
    proof (cases "g = gain st")
      case True
      with assms SetGain show ?thesis by simp
    next
      case False
      have "sameOwnership st (st\<lparr>gain := g\<rparr>)"
        by (rule sameOwnership_untouched) simp_all
      then have "sameOwnership st (gainEffect_p0 ctx gains (st\<lparr>gain := g\<rparr>))"
        using sameOwnership_gainEffect_p0 sameOwnership_trans by blast
      with assms False SetGain show ?thesis by (simp add: ownedOnce_same)
    qed
  next
    case (SetWaveform w)
    show "ownedOnce (handle_p0 st (ctx, gains, e))"
    proof (cases "w = waveform st")
      case True
      with assms SetWaveform show ?thesis by simp
    next
      case False
      have "sameOwnership st (st\<lparr>waveform := w\<rparr>)"
        by (rule sameOwnership_untouched) simp_all
      then have "sameOwnership st (waveformEffect_p0 (st\<lparr>waveform := w\<rparr>))"
        using sameOwnership_waveformEffect_p0 sameOwnership_trans by blast
      with assms False SetWaveform show ?thesis by (simp add: ownedOnce_same)
    qed
  next
    case (SetAttack x)
    have "sameOwnership st (st\<lparr>attack := x\<rparr>)"
      by (rule sameOwnership_untouched) simp_all
    with assms SetAttack show "ownedOnce (handle_p0 st (ctx, gains, e))"
      by (simp add: ownedOnce_same)
  next
    case (SetRelease x)
    have "sameOwnership st (st\<lparr>release := x\<rparr>)"
      by (rule sameOwnership_untouched) simp_all
    with assms SetRelease show "ownedOnce (handle_p0 st (ctx, gains, e))"
      by (simp add: ownedOnce_same)
  next
    case (SetSustain x)
    have "sameOwnership st (st\<lparr>sustain := x\<rparr>)"
      by (rule sameOwnership_untouched) simp_all
    with assms SetSustain show "ownedOnce (handle_p0 st (ctx, gains, e))"
      by (simp add: ownedOnce_same)
  qed (use assms in \<open>simp_all add: ownedOnce_startForKey_p0 ownedOnce_stopForKey_p0
        ownedOnce_startForPointer_p0 ownedOnce_stopForPointer_p0 ownedOnce_toggleLatched_p0
        ownedOnce_allOff_p0
        ownedOnce_same [OF _ sameOwnership_retuneForPointer_p0]
        ownedOnce_same [OF _ sameOwnership_setTranspose12_p0]
        ownedOnce_same [OF _ sameOwnership_glow(1)]
        ownedOnce_same [OF _ sameOwnership_glow(2)]\<close>)
qed

lemma ownedOnce_run_p0: "ownedOnce st \<Longrightarrow> ownedOnce (foldl handle_p0 st evs)"
  by (induction evs arbitrary: st) (simp_all add: ownedOnce_handle_p0)

lemma ownedOnce_initialState_p0: "ownedOnce initialState_p0"
  by (simp add: ownedOnce_def initialState_p0_def regRefs_def pointerRefs_def latchRefs_def
        keyRefs_def)

lemma ownedOnce_at_most_one_stop:
  assumes "ownedOnce st" and "(r, v) \<in> set (voices st)"
  shows "length (filter isOscStop (calls v)) \<le> 1 \<and> length (filter isOscSetOnEnded (calls v)) \<le> 1"
  using assms by (auto simp: ownedOnce_def stopCount_def endedCount_def)

lemma afterBusyRun_p0_voices:
  "map (\<lambda>(r, x). (r, stopCount x, endedCount x)) (voices afterBusyRun_p0)
     = [(0, 0, 0), (1, 1, 1), (2, 1, 1)]
   \<and> regRefs afterBusyRun_p0 = []"
  by (simp add: afterBusyRun_p0_def busyRun_p0_def initialState_p0_def
        startForPointer_p0_def startVoice_p0_def retuneForPointer_p0_def stopForPointer_p0_def
        startForKey_p0_def toggleLatched_p0_def allOff_p0_def stopEach_p0_def gainEffect_p0_def
        decGlow_p0_def incGlow_p0_def maybeBeginFade_p0_def tick_def Let_def
        newVoice_p0_def stop_p0_def setFrequency_p0_def setGain_p0_def
        stopCount_def endedCount_def regRefs_def pointerRefs_def latchRefs_def keyRefs_def
        getCount_def)

subsection \<open>The claim\<close>

text \<open>
  Claim C4, as the code has it. In the first file \<open>Voice.stop\<close> is idempotent: the guard
  \<^verbatim>\<open>if (this._stopped) return\<close> makes a second call return the voice as the first call left
  it, so a voice receives one \<^verbatim>\<open>osc.stop\<close> and at most one \<^verbatim>\<open>onended\<close> handler however often
  \<open>stop\<close> is called. The \<open>Voice\<close> of the second file has no such guard; there the component
  never calls \<open>stop\<close> twice on a voice: every call site takes the voice from a registry and
  removes the entry right after the call, and no voice is held by two entries. The initial
  state satisfies this discipline, every event preserves it, and so after every sequence
  of events every voice has received at most one \<^verbatim>\<open>osc.stop\<close>, has had its \<^verbatim>\<open>onended\<close> handler
  installed as often, and has received none while a registry holds it.
\<close>

theorem each_voice_stopped_at_most_once:
  assumes "ownedOnce st"
  shows "stop ctx2 r2 cb2 (stop ctx1 r1 cb1 v) = stop ctx1 r1 cb1 v
     \<and> length (filter isOscStop
                 (calls (stop ctx2 r2 cb2 (stop ctx1 r1 cb1 (newVoice ctx w f g a))))) = 1
     \<and> length (filter isOscSetOnEnded
                 (calls (stop ctx2 r2 cb2 (stop ctx1 r1 cb1 (newVoice ctx w f g a))))) \<le> 1
     \<and> ownedOnce initialState_p0
     \<and> ownedOnce (foldl handle_p0 st evs)
     \<and> (\<forall>(r, x) \<in> set (voices (foldl handle_p0 st evs)).
           length (filter isOscStop (calls x)) \<le> 1
           \<and> length (filter isOscSetOnEnded (calls x)) = length (filter isOscStop (calls x))
           \<and> (r \<in> set (regRefs (foldl handle_p0 st evs))
                \<longrightarrow> length (filter isOscStop (calls x)) = 0))"
proof -
  have o: "ownedOnce (foldl handle_p0 st evs)"
    using assms by (rule ownedOnce_run_p0)
  then have "\<forall>(r, x) \<in> set (voices (foldl handle_p0 st evs)).
           length (filter isOscStop (calls x)) \<le> 1
           \<and> length (filter isOscSetOnEnded (calls x)) = length (filter isOscStop (calls x))
           \<and> (r \<in> set (regRefs (foldl handle_p0 st evs))
                \<longrightarrow> length (filter isOscStop (calls x)) = 0)"
    unfolding ownedOnce_def stopCount_def endedCount_def by blast
  with o show ?thesis
    using stop_idempotent [of ctx2 r2 cb2 ctx1 r1 cb1 v]
      stop_new_once [of ctx2 r2 cb2 ctx1 r1 cb1 ctx w f g a] ownedOnce_initialState_p0
    by blast
qed


theorem each_voice_stopped_at_most_once_witness:
  "ownedOnce initialState_p0
   \<and> ownedOnce afterBusyRun_p0
   \<and> map (\<lambda>(r, x). (r, length (filter isOscStop (calls x)),
                       length (filter isOscSetOnEnded (calls x)))) (voices afterBusyRun_p0)
       = [(0, 0, 0), (1, 1, 1), (2, 1, 1)]
   \<and> regRefs afterBusyRun_p0 = []"
  using each_voice_stopped_at_most_once [OF ownedOnce_initialState_p0, where evs = busyRun_p0]
    afterBusyRun_p0_voices
  by (simp add: afterBusyRun_p0_def stopCount_def endedCount_def)

text \<open>
  The claim as stated, of the method alone, fails for the \<open>Voice\<close> of the second file: on a
  fresh voice a second call of \<open>stop\<close> schedules a second \<^verbatim>\<open>osc.stop\<close>, installs the \<^verbatim>\<open>onended\<close>
  handler again and leaves a state that differs from the state after the first call.
\<close>

theorem stop_p0_twice_counterexample:
  "length (filter isOscStop (calls stoppedOnce_p0)) = 1
   \<and> length (filter isOscStop (calls stoppedTwice_p0)) = 2
   \<and> length (filter isOscSetOnEnded (calls stoppedTwice_p0)) = 2
   \<and> stoppedTwice_p0 \<noteq> stoppedOnce_p0"
  by (simp add: stoppedTwice_p0_def stoppedOnce_p0_def freshVoice_p0_def stop_p0_def newVoice_p0_def
       Let_def)

end
